theory Spec2Isabelle
  imports Complex_Main
begin

section \<open>Strings and URL construction\<close>

text \<open>
  A JavaScript string is modelled as a \<open>string\<close>: the bytes of its UTF-8 encoding. String
  literals of the source (\<open>'pluto.tv'\<close>, \<open>'.m3u8'\<close>, the URL prefixes) are ASCII, so
  substring tests on the bytes agree with \<open>String.prototype.includes\<close> on the code units.
  A string with an unpaired surrogate has no UTF-8 encoding and is outside the model; the
  built-in \<open>encodeURIComponent\<close> raises \<open>URIError\<close> on such a string.
\<close>

type_synonym url = string

fun startsWith :: "string \<Rightarrow> string \<Rightarrow> bool" where
  "startsWith s [] = True"
| "startsWith [] (d # ds) = False"
| "startsWith (c # cs) (d # ds) = (c = d \<and> startsWith cs ds)"

text \<open>\<open>s.includes(d)\<close>: \<open>d\<close> occurs in \<open>s\<close> as a contiguous substring.\<close>

fun includesStr :: "string \<Rightarrow> string \<Rightarrow> bool" where
  "includesStr [] d = (d = [])"
| "includesStr (c # cs) d = (startsWith (c # cs) d \<or> includesStr cs d)"

text \<open>
  The built-in \<open>encodeURIComponent\<close> (ECMAScript, \<open>Encode\<close> with the unescaped set of
  \<open>encodeURIComponent\<close>): letters, digits and \<open>_ - . ! ~ * ' ( )\<close> are kept, every other
  byte of the UTF-8 encoding becomes \<open>%XX\<close> with upper-case hexadecimal digits.
\<close>

definition uriUnescaped :: "string" where
  "uriUnescaped =
     ''ABCDEFGHIJKLMNOPQRSTUVWXYZabcdefghijklmnopqrstuvwxyz0123456789_'' @
     ''-.!~*'' @ [CHR 0x27] @ ''()''"

definition hexDigit :: "nat \<Rightarrow> char" where
  "hexDigit n = ''0123456789ABCDEF'' ! n"

definition percentEncode :: "char \<Rightarrow> string" where
  "percentEncode c =
     [CHR ''%'', hexDigit ((of_char c :: nat) div 16), hexDigit ((of_char c :: nat) mod 16)]"

fun encodeURIComponent :: "string \<Rightarrow> string" where
  "encodeURIComponent [] = []"
| "encodeURIComponent (c # cs) =
     (if c \<in> set uriUnescaped then [c] else percentEncode c) @ encodeURIComponent cs"

text \<open>\<open>getProxiedUrl\<close> and \<open>getTranscodeUrl\<close> of \<open>VideoPlayer\<close>.\<close>

definition getProxiedUrl :: "url \<Rightarrow> url" where
  "getProxiedUrl u = ''/api/proxy/stream?url='' @ encodeURIComponent u"

definition getTranscodeUrl :: "url \<Rightarrow> url" where
  "getTranscodeUrl u = ''/api/transcode?url='' @ encodeURIComponent u"

subsection \<open>Reading the parameter back\<close>

text \<open>
  The reader of a constructed URL is not code of the player: it is the built-in
  \<open>decodeURIComponent\<close> behind the query-string parser of the server (\<open>req.query\<close>).
  \<open>decodeURIComponent\<close> replaces each \<open>%XX\<close> by the byte it denotes and raises \<open>URIError\<close>
  (here \<open>None\<close>) on a \<open>%\<close> that is not followed by two hexadecimal digits. The query
  parser cuts the fragment at the first \<open>#\<close>, takes the text after the first \<open>?\<close>, splits it
  at every \<open>&\<close>, splits each part at its first \<open>=\<close>, and decodes key and value after
  turning \<open>+\<close> into a space (keeping the raw text when decoding raises).
\<close>

definition hexValue :: "char \<Rightarrow> nat option" where
  "hexValue c =
     (let n = (of_char c :: nat) in
      if 48 \<le> n \<and> n \<le> 57 then Some (n - 48)
      else if 65 \<le> n \<and> n \<le> 70 then Some (n - 55)
      else if 97 \<le> n \<and> n \<le> 102 then Some (n - 87)
      else None)"

fun decodeURIComponent :: "string \<Rightarrow> string option" where
  "decodeURIComponent [] = Some []"
| "decodeURIComponent (c # cs) =
     (if c = CHR ''%'' then
        (case cs of
           h1 # h2 # rest \<Rightarrow>
             (case (hexValue h1, hexValue h2) of
                (Some a, Some b) \<Rightarrow>
                  map_option ((#) (char_of (16 * a + b))) (decodeURIComponent rest)
              | _ \<Rightarrow> None)
         | _ \<Rightarrow> None)
      else map_option ((#) c) (decodeURIComponent cs))"

fun splitFirst :: "char \<Rightarrow> string \<Rightarrow> string \<times> string option" where
  "splitFirst d [] = ([], None)"
| "splitFirst d (c # cs) =
     (if c = d then ([], Some cs)
      else (case splitFirst d cs of (a, r) \<Rightarrow> (c # a, r)))"

fun splitAll :: "char \<Rightarrow> string \<Rightarrow> string list" where
  "splitAll d [] = [[]]"
| "splitAll d (c # cs) =
     (if c = d then [] # splitAll d cs
      else (case splitAll d cs of x # xs \<Rightarrow> (c # x) # xs | [] \<Rightarrow> [[c]]))"

definition searchOf :: "url \<Rightarrow> string" where
  "searchOf u =
     (case splitFirst CHR ''?'' (fst (splitFirst CHR ''#'' u)) of
        (_, Some q) \<Rightarrow> q
      | (_, None) \<Rightarrow> [])"

definition queryDecode :: "string \<Rightarrow> string" where
  "queryDecode s =
     (let t = map (\<lambda>c. if c = CHR ''+'' then CHR '' '' else c) s
      in case decodeURIComponent t of Some v \<Rightarrow> v | None \<Rightarrow> t)"

definition queryPair :: "string \<Rightarrow> string \<times> string" where
  "queryPair part =
     (case splitFirst CHR ''='' part of
        (k, Some v) \<Rightarrow> (queryDecode k, queryDecode v)
      | (k, None) \<Rightarrow> (queryDecode k, []))"

definition queryParams :: "url \<Rightarrow> (string \<times> string) list" where
  "queryParams u =
     map queryPair (filter (\<lambda>part. part \<noteq> []) (splitAll CHR ''&'' (searchOf u)))"

definition queryParam :: "string \<Rightarrow> url \<Rightarrow> string option" where
  "queryParam k u = map_of (queryParams u) k"

text \<open>The characters that would end or split a query parameter.\<close>

definition uriSafe :: "char \<Rightarrow> bool" where
  "uriSafe c = (c \<notin> set ''?#&=+'')"

section \<open>The video player (\<open>VideoPlayer.js\<close>)\<close>

text \<open>
  The two settings that \<open>play\<close> reads. The other settings (volume, overlay duration,
  key bindings) do not reach the delivery logic.
\<close>

record settings =
  forceProxy :: bool
  forceTranscode :: bool

definition defaultSettings :: settings where
  "defaultSettings = \<lparr>forceProxy = False, forceTranscode = False\<rparr>"

text \<open>
  What the browser answers: \<open>Hls.isSupported()\<close> and
  \<open>video.canPlayType('application/vnd.apple.mpegurl')\<close>.
\<close>

datatype canPlay = Probably | Maybe | NoSupport

record browser =
  hlsSupported :: bool
  canPlayHls :: canPlay

datatype channel = Channel string

text \<open>
  An engine instance carries the listeners registered on it: those of \<open>init\<close> (the
  instance made by the constructor) or those of \<open>play\<close>.
\<close>

datatype handlers = InitHandlers | PlayHandlers

text \<open>
  Every call the player makes on the engine, on the video element and on the page is
  recorded, in order. Engine instances are numbered in the order of their creation.
  \<open>CallGetProxiedUrl\<close> and \<open>CallGetTranscodeUrl\<close> record the construction of a relayed or
  transcode URL. Console output is not recorded.
\<close>

datatype action =
    HlsNew nat
  | HlsLoadSource nat url
  | HlsAttachMedia nat
  | HlsStartLoad nat
  | HlsRecoverMediaError nat
  | HlsDestroy nat
  | VideoPause
  | VideoSetSrc url
  | VideoLoad
  | VideoPlay
  | VideoSeekBy real
  | CallGetProxiedUrl url
  | CallGetTranscodeUrl url
  | HideOverlay
  | UpdateNowPlaying
  | ShowNowPlayingOverlay
  | FetchEpgData
  | DispatchChannelChanged

text \<open>
  The fields of \<open>VideoPlayer\<close> that the delivery logic reads or writes. \<open>hls\<close> is \<open>None\<close>
  for \<open>null\<close>. \<open>pending\<close> holds the retry handlers of the native path of \<open>play\<close> whose
  \<open>video.play()\<close> promise is not settled yet, oldest first, each as the \<open>streamUrl\<close> it
  captured. Nothing in the source cancels such a handler: it stays until its promise is
  rejected or resolved.
  \<open>lastDiscontinuity\<close> is read only by listeners registered after it was set to \<open>-1\<close>.
  \<open>nextId\<close> and \<open>trace\<close> are the numbering of engine instances and the record of calls.
\<close>

record player =
  settings :: settings
  hls :: "(nat \<times> handlers) option"
  currentChannel :: "channel option"
  isUsingProxy :: bool
  currentUrl :: "url option"
  lastDiscontinuity :: int
  videoSrc :: url
  pending :: "url list"
  nextId :: nat
  trace :: "action list"

definition emit :: "action \<Rightarrow> player \<Rightarrow> player" where
  "emit a p = p\<lparr>trace := trace p @ [a]\<rparr>"

text \<open>\<open>this.hls = new Hls(this.getHlsConfig())\<close>\<close>

definition newHls :: "handlers \<Rightarrow> player \<Rightarrow> player" where
  "newHls k p =
     (emit (HlsNew (nextId p)) p)\<lparr>hls := Some (nextId p, k), nextId := Suc (nextId p)\<rparr>"

text \<open>The constructor with \<open>init\<close>: an engine instance is made when the browser supports it.\<close>

definition newPlayer :: "browser \<Rightarrow> settings \<Rightarrow> player" where
  "newPlayer b s =
     (let p = \<lparr>settings = s, hls = None, currentChannel = None, isUsingProxy = False,
                currentUrl = None, lastDiscontinuity = - 1, videoSrc = [], pending = [],
                nextId = 0, trace = []\<rparr>
      in if hlsSupported b then (newHls InitHandlers p)\<lparr>lastDiscontinuity := - 1\<rparr> else p)"

definition stop :: "player \<Rightarrow> player" where
  "stop p =
     (let p1 = (case hls p of
                  Some (h, k) \<Rightarrow> (emit (HlsDestroy h) p)\<lparr>hls := None\<rparr>
                | None \<Rightarrow> p);
          p2 = emit VideoPause p1;
          p3 = (emit (VideoSetSrc []) p2)\<lparr>videoSrc := []\<rparr>
      in emit VideoLoad p3)"

definition proxyRequiredDomains :: "string list" where
  "proxyRequiredDomains = [''pluto.tv'']"

definition looksLikeHls :: "url \<Rightarrow> bool" where
  "looksLikeHls finalUrl =
     (includesStr finalUrl ''.m3u8'' \<or> includesStr finalUrl ''m3u8'' \<or>
      (\<not> includesStr finalUrl ''.mp4'' \<and> \<not> includesStr finalUrl ''.mkv'' \<and>
       \<not> includesStr finalUrl ''.avi''))"

text \<open>
  The end of both branches of \<open>play\<close>: \<open>updateNowPlaying\<close>, \<open>showNowPlayingOverlay\<close>,
  \<open>fetchEpgData\<close> and the \<open>channelChanged\<close> event.
\<close>

definition announce :: "player \<Rightarrow> player" where
  "announce p =
     emit DispatchChannelChanged (emit FetchEpgData (emit ShowNowPlayingOverlay
       (emit UpdateNowPlaying p)))"

text \<open>\<open>this.video.src = u\<close>\<close>

definition setSrc :: "url \<Rightarrow> player \<Rightarrow> player" where
  "setSrc u p = (emit (VideoSetSrc u) p)\<lparr>videoSrc := u\<rparr>"

text \<open>
  \<open>play(channel, streamUrl)\<close>. It has no \<open>await\<close>, so it runs to its end before any
  event is delivered. No call in its \<open>try\<close> block raises in the model. The native
  path adds its retry handler to \<open>pending\<close>; the handlers of the other paths only write to
  the console and are not kept.
\<close>

definition play :: "browser \<Rightarrow> channel \<Rightarrow> url \<Rightarrow> player \<Rightarrow> player" where
  "play b channel streamUrl p =
     (let p1 = stop (p\<lparr>currentChannel := Some channel\<rparr>);
          p2 = emit HideOverlay p1;
          p3 = p2\<lparr>currentUrl := Some streamUrl\<rparr>
      in if forceTranscode (settings p3) then
           (let transcodeUrl = getTranscodeUrl streamUrl;
                p4 = (emit (CallGetTranscodeUrl streamUrl) p3)
                       \<lparr>currentUrl := Some transcodeUrl\<rparr>;
                p5 = setSrc transcodeUrl p4;
                p6 = emit VideoPlay p5
            in announce p6)
         else
           (let needsProxy = (forceProxy (settings p3) \<or>
                              list_ex (includesStr streamUrl) proxyRequiredDomains);
                p4 = p3\<lparr>isUsingProxy := needsProxy\<rparr>;
                p5 = (if needsProxy then emit (CallGetProxiedUrl streamUrl) p4 else p4);
                finalUrl = (if needsProxy then getProxiedUrl streamUrl else streamUrl)
            in if looksLikeHls finalUrl \<and> hlsSupported b then
                 (let p6 = newHls PlayHandlers p5;
                      h = nextId p5;
                      p7 = emit (HlsLoadSource h finalUrl) p6;
                      p8 = emit (HlsAttachMedia h) p7;
                      p9 = p8\<lparr>lastDiscontinuity := - 1\<rparr>
                  in announce p9)
               else if canPlayHls b = Probably \<or> canPlayHls b = Maybe then
                 (let p6 = setSrc finalUrl p5;
                      p7 = (emit VideoPlay p6)\<lparr>pending := pending p6 @ [streamUrl]\<rparr>
                  in announce p7)
               else
                 (let p6 = setSrc finalUrl p5;
                      p7 = emit VideoPlay p6
                  in announce p7)))"

subsection \<open>Events\<close>

text \<open>
  The last two events are the settling of a \<open>video.play()\<close> promise that has a retry
  handler: the handler at that place in \<open>pending\<close> runs (rejection) or is dropped
  (resolution). A place beyond the end of \<open>pending\<close> stands for a promise whose handler
  only writes to the console. The browser rejects a pending promise when the element is
  paused or loads a new source, so the handler of an earlier call of \<open>play\<close> can run
  after a later call.

  The data of the engine's events, as the listeners read it: the error type (the types
  other than network and media are one constructor), the fatal flag and the detail
  string; the fragment's \<open>sn\<close> (\<open>'initSegment'\<close> or a number) and \<open>cc\<close> (\<open>None\<close> for
  \<open>undefined\<close>). A listener also reads \<open>video.paused\<close> and \<open>video.currentTime\<close>; the
  element is the browser's, so each event comes with what the element shows at that
  moment. The position is a real number; the listeners only test its sign.
\<close>

datatype errorType = NETWORK_ERROR | MEDIA_ERROR | OTHER_ERROR

record errorData =
  fatal :: bool
  etype :: errorType
  details :: string

datatype fragSn = InitSegment | Sn nat

record frag =
  sn :: fragSn
  cc :: "int option"

record video =
  paused :: bool
  currentTime :: real

datatype event =
    ERROR errorData
  | FRAG_CHANGED "frag option"
  | MANIFEST_PARSED
  | BUFFER_STALLED_ERROR
  | AUDIO_TRACK_SWITCHED
  | PlayRejected nat
  | PlayResolved nat

text \<open>\<open>encodeURIComponent(null)\<close> is \<open>'null'\<close>.\<close>

definition urlArg :: "url option \<Rightarrow> url" where
  "urlArg u = (case u of Some s \<Rightarrow> s | None \<Rightarrow> ''null'')"

definition isCorsLikely :: "errorData \<Rightarrow> bool" where
  "isCorsLikely d =
     (etype d = NETWORK_ERROR \<or> (etype d = MEDIA_ERROR \<and> details d = ''fragParsingError''))"

text \<open>\<open>!this.video.paused && this.video.currentTime > 0\<close>\<close>

definition playing :: "video \<Rightarrow> bool" where
  "playing v = (\<not> paused v \<and> currentTime v > 0)"

text \<open>The retry of the error listener of \<open>play\<close>: the same engine loads the proxied URL.\<close>

definition retryViaProxy :: "nat \<Rightarrow> player \<Rightarrow> player" where
  "retryViaProxy h p =
     (let p1 = p\<lparr>isUsingProxy := True\<rparr>;
          p2 = emit (CallGetProxiedUrl (urlArg (currentUrl p1))) p1;
          p3 = emit (HlsLoadSource h (getProxiedUrl (urlArg (currentUrl p1)))) p2
      in emit (HlsStartLoad h) p3)"

text \<open>The \<open>Hls.Events.ERROR\<close> listener registered by \<open>play\<close>.\<close>

definition onError :: "nat \<Rightarrow> video \<Rightarrow> errorData \<Rightarrow> player \<Rightarrow> player" where
  "onError h v d p =
     (if fatal d then
        (if isCorsLikely d \<and> \<not> isUsingProxy p then retryViaProxy h p
         else if etype d = MEDIA_ERROR then emit (HlsRecoverMediaError h) p
         else p)
      else if etype d = MEDIA_ERROR then
        (if details d = ''bufferStalledError'' then
           (if playing v then emit (VideoSeekBy 1) p else p)
         else p)
      else p)"

text \<open>The \<open>Hls.Events.FRAG_CHANGED\<close> listener registered by \<open>play\<close>.\<close>

definition onFragChanged :: "video \<Rightarrow> frag option \<Rightarrow> player \<Rightarrow> player" where
  "onFragChanged v fr p =
     (case fr of
        None \<Rightarrow> p
      | Some f \<Rightarrow>
          if sn f \<noteq> InitSegment then
            (case cc f of
               None \<Rightarrow> p
             | Some c \<Rightarrow>
                 if c \<noteq> lastDiscontinuity p then
                   (let wasFirstDetection = (lastDiscontinuity p = - 1);
                        p1 = p\<lparr>lastDiscontinuity := c\<rparr>
                    in if \<not> wasFirstDetection \<and> playing v then emit (VideoSeekBy 1) p1
                       else p1)
                 else p)
          else p)"

text \<open>The listeners registered by \<open>init\<close> on the constructor's instance.\<close>

definition initOnError :: "nat \<Rightarrow> errorData \<Rightarrow> player \<Rightarrow> player" where
  "initOnError h d p =
     (if fatal d then
        (case etype d of
           NETWORK_ERROR \<Rightarrow>
             if currentChannel p \<noteq> None \<and> \<not> isUsingProxy p then
               (let proxiedUrl = getProxiedUrl (urlArg (currentUrl p));
                    p1 = emit (CallGetProxiedUrl (urlArg (currentUrl p))) p;
                    p2 = p1\<lparr>isUsingProxy := True\<rparr>;
                    p3 = emit (HlsLoadSource h proxiedUrl) p2
                in emit (HlsStartLoad h) p3)
             else emit (HlsStartLoad h) p
         | MEDIA_ERROR \<Rightarrow> emit (HlsRecoverMediaError h) p
         | OTHER_ERROR \<Rightarrow> stop p)
      else if etype d = MEDIA_ERROR then emit (HlsRecoverMediaError h) p
      else if details d = ''bufferAppendError'' \<or> details d = ''fragParsingError'' then
        emit (HlsRecoverMediaError h) p
      else p)"

definition initOnFragChanged :: "video \<Rightarrow> frag option \<Rightarrow> player \<Rightarrow> player" where
  "initOnFragChanged v fr p =
     (case fr of
        None \<Rightarrow> p
      | Some f \<Rightarrow>
          if sn f \<noteq> InitSegment then
            (case cc f of
               None \<Rightarrow> p
             | Some c \<Rightarrow>
                 if c \<noteq> lastDiscontinuity p then
                   (let p1 = p\<lparr>lastDiscontinuity := c\<rparr>
                    in if playing v then emit (VideoSeekBy (1 / 100)) p1 else p1)
                 else p)
          else p)"

text \<open>A list without its element at place \<open>n\<close>.\<close>

definition dropNth :: "nat \<Rightarrow> 'a list \<Rightarrow> 'a list" where
  "dropNth n xs = take n xs @ drop (Suc n) xs"

text \<open>
  The rejection of a \<open>video.play()\<close> promise of the native path: its handler retries
  through the proxy unless the proxy flag is set by then, with the \<open>streamUrl\<close> of its own
  call of \<open>play\<close>; the promise of the retry has a handler that only writes to the
  console.
\<close>

definition onPlayRejected :: "nat \<Rightarrow> player \<Rightarrow> player" where
  "onPlayRejected n p =
     (if n < length (pending p) then
        (let streamUrl = pending p ! n;
             p0 = p\<lparr>pending := dropNth n (pending p)\<rparr>
         in if \<not> isUsingProxy p0 then
              (let p1 = p0\<lparr>isUsingProxy := True\<rparr>;
                   p2 = emit (CallGetProxiedUrl streamUrl) p1;
                   p3 = setSrc (getProxiedUrl streamUrl) p2
               in emit VideoPlay p3)
            else p0)
      else p)"

text \<open>The resolution of such a promise (playback has started): its handler is dropped.\<close>

definition onPlayResolved :: "nat \<Rightarrow> player \<Rightarrow> player" where
  "onPlayResolved n p =
     (if n < length (pending p) then p\<lparr>pending := dropNth n (pending p)\<rparr> else p)"

fun dispatch :: "nat \<Rightarrow> handlers \<Rightarrow> video \<Rightarrow> event \<Rightarrow> player \<Rightarrow> player" where
  "dispatch h PlayHandlers v (ERROR d) p = onError h v d p"
| "dispatch h PlayHandlers v (FRAG_CHANGED fr) p = onFragChanged v fr p"
| "dispatch h PlayHandlers v MANIFEST_PARSED p = emit VideoPlay p"
| "dispatch h PlayHandlers v BUFFER_STALLED_ERROR p = p"
| "dispatch h PlayHandlers v AUDIO_TRACK_SWITCHED p = p"
| "dispatch h InitHandlers v (ERROR d) p = initOnError h d p"
| "dispatch h InitHandlers v (FRAG_CHANGED fr) p = initOnFragChanged v fr p"
| "dispatch h InitHandlers v MANIFEST_PARSED p = emit VideoPlay p"
| "dispatch h InitHandlers v BUFFER_STALLED_ERROR p = emit (HlsRecoverMediaError h) p"
| "dispatch h InitHandlers v AUDIO_TRACK_SWITCHED p = p"
| "dispatch h k v (PlayRejected n) p = p"
| "dispatch h k v (PlayResolved n) p = p"

text \<open>
  One event. An engine event reaches the listeners of the live instance; a destroyed
  instance has no listeners, so without an instance nothing runs. The settling of a
  promise reaches its handler whatever the player plays by then.
\<close>

definition deliver :: "video \<times> event \<Rightarrow> player \<Rightarrow> player" where
  "deliver ve p =
     (case ve of
        (v, PlayRejected n) \<Rightarrow> onPlayRejected n p
      | (v, PlayResolved n) \<Rightarrow> onPlayResolved n p
      | (v, e) \<Rightarrow> (case hls p of None \<Rightarrow> p | Some (h, k) \<Rightarrow> dispatch h k v e p))"

definition deliverAll :: "(video \<times> event) list \<Rightarrow> player \<Rightarrow> player" where
  "deliverAll evs p = foldl (\<lambda>q ve. deliver ve q) p evs"

text \<open>What the page can do to a player: play, stop, change the settings, or an event.\<close>

datatype command =
    Play channel url
  | Stop
  | Configure settings
  | Event video event

fun exec :: "browser \<Rightarrow> command \<Rightarrow> player \<Rightarrow> player" where
  "exec b (Play ch u) p = play b ch u p"
| "exec b Stop p = stop p"
| "exec b (Configure s) p = p\<lparr>settings := s\<rparr>"
| "exec b (Event v e) p = deliver (v, e) p"

definition runCommands :: "browser \<Rightarrow> command list \<Rightarrow> player \<Rightarrow> player" where
  "runCommands b cs p = foldl (\<lambda>q c. exec b c q) p cs"

subsection \<open>Reading the record of calls\<close>

definition actionsSince :: "player \<Rightarrow> player \<Rightarrow> action list" where
  "actionsSince p q = drop (length (trace p)) (trace q)"

fun createdBy :: "action \<Rightarrow> nat list" where
  "createdBy (HlsNew h) = [h]"
| "createdBy _ = []"

fun sourceOf :: "action \<Rightarrow> url list" where
  "sourceOf (HlsLoadSource h u) = [u]"
| "sourceOf (VideoSetSrc u) = [u]"
| "sourceOf _ = []"

fun proxiedOf :: "action \<Rightarrow> url list" where
  "proxiedOf (CallGetProxiedUrl u) = [u]"
| "proxiedOf _ = []"

fun transcodedOf :: "action \<Rightarrow> url list" where
  "transcodedOf (CallGetTranscodeUrl u) = [u]"
| "transcodedOf _ = []"

text \<open>The engine instances created, in order.\<close>

definition engineCreations :: "action list \<Rightarrow> nat list" where
  "engineCreations t = concat (map createdBy t)"

text \<open>The URLs given to the engine or to the video element, in order.\<close>

definition sourceUrls :: "action list \<Rightarrow> url list" where
  "sourceUrls t = concat (map sourceOf t)"

text \<open>The upstream URLs for which a relayed, respectively a transcode URL was built.\<close>

definition proxiedBuilt :: "action list \<Rightarrow> url list" where
  "proxiedBuilt t = concat (map proxiedOf t)"

definition transcodeBuilt :: "action list \<Rightarrow> url list" where
  "transcodeBuilt t = concat (map transcodedOf t)"

text \<open>The calls of \<open>stop\<close>.\<close>

definition stopActions :: "player \<Rightarrow> action list" where
  "stopActions p =
     (case hls p of Some (h, k) \<Rightarrow> [HlsDestroy h] | None \<Rightarrow> []) @
     [VideoPause, VideoSetSrc [], VideoLoad]"

text \<open>
  The engine instances that exist, and those attached to the video element, after a
  call: \<open>new Hls\<close> adds an instance, \<open>attachMedia\<close> attaches it, \<open>destroy\<close> removes it
  from both.
\<close>

fun engineStep :: "action \<Rightarrow> nat list \<times> nat list \<Rightarrow> nat list \<times> nat list" where
  "engineStep (HlsNew h) (lv, av) = (h # lv, av)"
| "engineStep (HlsAttachMedia h) (lv, av) = (lv, h # av)"
| "engineStep (HlsDestroy h) (lv, av) = (removeAll h lv, removeAll h av)"
| "engineStep _ (lv, av) = (lv, av)"

definition enginesAfter :: "action list \<Rightarrow> nat list \<times> nat list" where
  "enginesAfter t = foldl (\<lambda>s a. engineStep a s) ([], []) t"

text \<open>
  At most one instance exists and at most one is attached, before and after every call of
  a record that starts with the instances \<open>s\<close>.
\<close>

fun enginesOk :: "nat list \<times> nat list \<Rightarrow> action list \<Rightarrow> bool" where
  "enginesOk s [] = (length (fst s) \<le> 1 \<and> length (snd s) \<le> 1)"
| "enginesOk s (a # t) =
     (length (fst s) \<le> 1 \<and> length (snd s) \<le> 1 \<and> enginesOk (engineStep a s) t)"

definition singleEngine :: "action list \<Rightarrow> bool" where
  "singleEngine t = enginesOk ([], []) t"

text \<open>A fatal error that the listener of \<open>play\<close> classifies as a CORS or network failure.\<close>

fun corsFatal :: "video \<times> event \<Rightarrow> bool" where
  "corsFatal (v, ERROR d) = (fatal d \<and> isCorsLikely d)"
| "corsFatal (v, e) = False"

subsection \<open>Sessions\<close>

text \<open>
  A session is what follows one call of \<open>play\<close>: the events delivered until the next
  call. The actions of each event of a session, one list per event.
\<close>

definition actionsPerEvent :: "(video \<times> event) list \<Rightarrow> player \<Rightarrow> action list list" where
  "actionsPerEvent evs q =
     map (\<lambda>n. actionsSince (deliverAll (take n evs) q) (deliverAll (take (Suc n) evs) q))
       [0..<length evs]"

text \<open>
  A fragment-change event for a media fragment (not the init segment) with sequence
  number \<open>n\<close> and continuity counter \<open>c\<close>.
\<close>

definition fragChanged :: "video \<Rightarrow> nat \<Rightarrow> int \<Rightarrow> video \<times> event" where
  "fragChanged v n c = (v, FRAG_CHANGED (Some \<lparr>sn = Sn n, cc = Some c\<rparr>))"

text \<open>Actions that load no source, build no URL and create no engine.\<close>

definition quiet :: "action list \<Rightarrow> bool" where
  "quiet xs = (sourceUrls xs = [] \<and> proxiedBuilt xs = [] \<and> transcodeBuilt xs = [] \<and>
               engineCreations xs = [])"

text \<open>
  The states of a session outside the transcode path: playing through the proxy;
  playing the origin URL on an engine made by \<open>play\<close>, with no retry handler pending;
  playing the origin URL natively with the retry handler of this call the only one
  pending.
\<close>

definition relayed :: "player \<Rightarrow> bool" where
  "relayed q = (isUsingProxy q \<and> (hls q = None \<or> (\<exists>h. hls q = Some (h, PlayHandlers))))"

definition directEngine :: "nat \<Rightarrow> url \<Rightarrow> player \<Rightarrow> bool" where
  "directEngine h u q = (\<not> isUsingProxy q \<and> hls q = Some (h, PlayHandlers) \<and>
                         currentUrl q = Some u \<and> pending q = [])"

definition nativeWait :: "url \<Rightarrow> player \<Rightarrow> bool" where
  "nativeWait u q = (\<not> isUsingProxy q \<and> hls q = None \<and> pending q = [u])"

text \<open>The events of the engine, as opposed to the settling of a promise.\<close>

fun engineEvent :: "event \<Rightarrow> bool" where
  "engineEvent (PlayRejected n) = False"
| "engineEvent (PlayResolved n) = False"
| "engineEvent e = True"

text \<open>
  In a native session whose own retry handler is the only one pending, that handler is
  at place 0: the event settles the promise of the session.
\<close>

fun settles :: "video \<times> event \<Rightarrow> bool" where
  "settles (v, PlayRejected n) = (n = 0)"
| "settles (v, PlayResolved n) = (n = 0)"
| "settles (v, e) = False"

text \<open>
  In such a session, the promise of the session is rejected by one of the events, and
  not resolved before.
\<close>

fun retried :: "(video \<times> event) list \<Rightarrow> bool" where
  "retried [] = False"
| "retried ((v, PlayRejected n) # evs) = (n = 0 \<or> retried evs)"
| "retried ((v, PlayResolved n) # evs) = (n \<noteq> 0 \<and> retried evs)"
| "retried ((v, e) # evs) = retried evs"

text \<open>Actions that neither create, attach nor destroy an engine.\<close>

fun engineNeutral :: "action \<Rightarrow> bool" where
  "engineNeutral (HlsNew h) = False"
| "engineNeutral (HlsAttachMedia h) = False"
| "engineNeutral (HlsDestroy h) = False"
| "engineNeutral _ = True"

text \<open>The instance the player holds in \<open>this.hls\<close>.\<close>

definition liveOf :: "player \<Rightarrow> nat list" where
  "liveOf q = (case hls q of None \<Rightarrow> [] | Some (h, k) \<Rightarrow> [h])"

text \<open>
  The invariant of a player: its record of calls never had two instances, the only
  instance that exists is the one in \<open>this.hls\<close>, and only that one can be attached.
\<close>

definition engineInv :: "player \<Rightarrow> bool" where
  "engineInv q =
     (singleEngine (trace q) \<and>
      fst (enginesAfter (trace q)) = liveOf q \<and>
      set (snd (enginesAfter (trace q))) \<subseteq> set (liveOf q) \<and>
      length (snd (enginesAfter (trace q))) \<le> 1)"

subsection \<open>Example inputs\<close>

definition exBrowser :: browser where
  "exBrowser = \<lparr>hlsSupported = True, canPlayHls = NoSupport\<rparr>"

definition exNativeBrowser :: browser where
  "exNativeBrowser = \<lparr>hlsSupported = True, canPlayHls = Maybe\<rparr>"

definition exVideo :: video where
  "exVideo = \<lparr>paused = False, currentTime = 5\<rparr>"

definition exNetworkError :: errorData where
  "exNetworkError = \<lparr>fatal = True, etype = NETWORK_ERROR, details = ''manifestLoadError''\<rparr>"

definition exMediaError :: errorData where
  "exMediaError = \<lparr>fatal = True, etype = MEDIA_ERROR, details = ''bufferAppendError''\<rparr>"

section \<open>The transcode route (\<open>GET /api/transcode\<close>)\<close>

text \<open>
  The request as the handler reads it: \<open>req.query.url\<close> (\<open>None\<close> when the parameter is
  absent, a string when it is given once; a repeated or bracketed parameter, which the
  query parser turns into an array or an object, is outside the model) and
  \<open>req.app.locals.ffmpegPath\<close>. \<open>spawn\<close> is Node's: it returns a process handle or
  raises, and the handler has a branch for each.
\<close>

record request =
  queryUrl :: "string option"
  ffmpegPathLocal :: "string option"

datatype spawnResult = Spawned | SpawnThrew string

datatype effect =
    CallSpawn string "string list"
  | Status nat
  | Json "(string \<times> string) list"
  | SetHeader string string
  | PipeStdout
  | Kill string

text \<open>
  What is left of a request after the handler returns: whether a process handle exists
  (its listeners and the \<open>close\<close> listener are registered only then), the collected
  standard error, and the calls made so far.
\<close>

record conn =
  process :: bool
  stderrBuffer :: string
  effects :: "effect list"

definition transcodeArgs :: "string \<Rightarrow> string list" where
  "transcodeArgs url =
     [''-hide_banner'',
      ''-loglevel'', ''warning'',
      ''-fflags'', ''+genpts'',
      ''-i'', url,
      ''-c:v'', ''copy'',
      ''-c:a'', ''aac'',
      ''-ar'', ''48000'',
      ''-b:a'', ''256k'',
      ''-af'', ''aresample=48000:async=1'',
      ''-f'', ''mp4'',
      ''-movflags'', ''frag_keyframe+empty_moov+default_base_moof'',
      ''-'']"

text \<open>\<open>x || d\<close> on a string that may be \<open>undefined\<close>: the empty string is falsy too.\<close>

definition orElse :: "string option \<Rightarrow> string \<Rightarrow> string" where
  "orElse x d = (case x of None \<Rightarrow> d | Some s \<Rightarrow> if s = [] then d else s)"

text \<open>
  The handler. The guard \<open>!url\<close> holds for \<open>undefined\<close> and for the empty string. Console
  output is not recorded.
\<close>

definition badRequest :: conn where
  "badRequest =
     \<lparr>process = False, stderrBuffer = [],
      effects = [Status 400, Json [(''error'', ''URL parameter is required'')]]\<rparr>"

definition getTranscode :: "spawnResult \<Rightarrow> request \<Rightarrow> conn" where
  "getTranscode sp req =
     (case queryUrl req of
        None \<Rightarrow> badRequest
      | Some url \<Rightarrow>
          if url = [] then badRequest
          else
            (let ffmpegPath = orElse (ffmpegPathLocal req) ''ffmpeg'';
                 args = transcodeArgs url
             in case sp of
                  SpawnThrew message \<Rightarrow>
                    \<lparr>process = False, stderrBuffer = [],
                     effects = [CallSpawn ffmpegPath args, Status 500,
                                Json [(''error'', ''FFmpeg spawn failed''),
                                      (''details'', message)]]\<rparr>
                | Spawned \<Rightarrow>
                    \<lparr>process = True, stderrBuffer = [],
                     effects = [CallSpawn ffmpegPath args,
                                SetHeader ''Content-Type'' ''video/mp4'',
                                SetHeader ''Access-Control-Allow-Origin'' ''*'',
                                PipeStdout]\<rparr>))"

text \<open>
  The events of a request with a process: the connection closes, the process writes to
  standard error, exits with a code, or reports an error (with \<open>res.headersSent\<close> as it
  is at that moment).
\<close>

datatype connEvent =
    ReqClose
  | StderrData string
  | ProcExit "int option"
  | ProcError bool

fun onConnEvent :: "connEvent \<Rightarrow> conn \<Rightarrow> conn" where
  "onConnEvent ReqClose c = c\<lparr>effects := effects c @ [Kill ''SIGKILL'']\<rparr>"
| "onConnEvent (StderrData msg) c = c\<lparr>stderrBuffer := stderrBuffer c @ msg\<rparr>"
| "onConnEvent (ProcExit code) c = c"
| "onConnEvent (ProcError headersSent) c =
     (if \<not> headersSent then
        c\<lparr>effects := effects c @
             [Status 500, Json [(''error'', ''Transcoding failed to start'')]]\<rparr>
      else c)"

text \<open>A request without a process has no listeners: its events change nothing.\<close>

definition connStep :: "connEvent \<Rightarrow> conn \<Rightarrow> conn" where
  "connStep e c = (if process c then onConnEvent e c else c)"

definition connRun :: "connEvent list \<Rightarrow> conn \<Rightarrow> conn" where
  "connRun es c = foldl (\<lambda>c e. connStep e c) c es"

text \<open>The calls of \<open>spawn\<close> and the signals sent, read off the calls of a request.\<close>

fun spawnsOf :: "effect \<Rightarrow> (string \<times> string list) list" where
  "spawnsOf (CallSpawn f args) = [(f, args)]"
| "spawnsOf _ = []"

fun killsOf :: "effect \<Rightarrow> string list" where
  "killsOf (Kill s) = [s]"
| "killsOf _ = []"

definition spawns :: "effect list \<Rightarrow> (string \<times> string list) list" where
  "spawns es = concat (map spawnsOf es)"

definition kills :: "effect list \<Rightarrow> string list" where
  "kills es = concat (map killsOf es)"

definition effectsSince :: "conn \<Rightarrow> conn \<Rightarrow> effect list" where
  "effectsSince c d = drop (length (effects c)) (effects d)"

section \<open>URL construction: lemmas\<close>

lemma hexValue_hexDigit: "n < 16 \<Longrightarrow> hexValue (hexDigit n) = Some n"
proof -
  assume "n < 16"
  then have "n \<in> set [0..<16]" by simp
  then show ?thesis
    by (auto simp: upt_rec hexDigit_def hexValue_def)
qed

lemma of_char_lt: "(of_char c :: nat) < 256"
  by (cases c) simp

lemma decode_percentEncode:
  "decodeURIComponent (percentEncode c @ s) = map_option ((#) c) (decodeURIComponent s)"
proof -
  have a: "(of_char c :: nat) div 16 < 16" using of_char_lt [of c] by arith
  have b: "(of_char c :: nat) mod 16 < 16" by simp
  show ?thesis
    by (simp add: percentEncode_def hexValue_hexDigit [OF a] hexValue_hexDigit [OF b])
qed

lemma unescaped_not_percent: "c \<in> set uriUnescaped \<Longrightarrow> c \<noteq> CHR ''%''"
  by (auto simp: uriUnescaped_def)

lemma decode_encode: "decodeURIComponent (encodeURIComponent s) = Some s"
proof (induction s)
  case Nil
  show ?case by simp
next
  case (Cons c s)
  show ?case
  proof (cases "c \<in> set uriUnescaped")
    case True
    with Cons unescaped_not_percent [OF True] show ?thesis by simp
  next
    case False
    with Cons show ?thesis by (simp add: decode_percentEncode del: decodeURIComponent.simps)
  qed
qed

lemma hexDigit_safe: "n < 16 \<Longrightarrow> uriSafe (hexDigit n)"
proof -
  assume "n < 16"
  then have "n \<in> set [0..<16]" by simp
  then show ?thesis
    by (auto simp: upt_rec hexDigit_def uriSafe_def)
qed

lemma percentEncode_safe: "x \<in> set (percentEncode c) \<Longrightarrow> uriSafe x"
proof -
  assume x: "x \<in> set (percentEncode c)"
  have a: "(of_char c :: nat) div 16 < 16" using of_char_lt [of c] by arith
  have b: "(of_char c :: nat) mod 16 < 16" by simp
  have "uriSafe CHR ''%''" by (simp add: uriSafe_def)
  with x hexDigit_safe [OF a] hexDigit_safe [OF b] show ?thesis
    by (auto simp: percentEncode_def)
qed

lemma unescaped_safe: "c \<in> set uriUnescaped \<Longrightarrow> uriSafe c"
  by (auto simp: uriUnescaped_def uriSafe_def)

lemma encode_safe: "x \<in> set (encodeURIComponent s) \<Longrightarrow> uriSafe x"
  by (induction s) (auto simp: unescaped_safe percentEncode_safe split: if_splits)

lemma encode_avoids: "d \<in> set ''?#&=+'' \<Longrightarrow> d \<notin> set (encodeURIComponent s)"
  using encode_safe [of d s] by (auto simp: uriSafe_def)

lemma splitFirst_none: "d \<notin> set s \<Longrightarrow> splitFirst d s = (s, None)"
  by (induction s) auto

lemma splitAll_none: "d \<notin> set s \<Longrightarrow> splitAll d s = [s]"
  by (induction s) auto

lemma plus_to_space_id:
  "CHR ''+'' \<notin> set s \<Longrightarrow> map (\<lambda>c. if c = CHR ''+'' then CHR '' '' else c) s = s"
  by (induction s) auto

lemma queryDecode_encode: "queryDecode (encodeURIComponent s) = s"
  by (simp add: queryDecode_def plus_to_space_id encode_avoids decode_encode)

lemma queryDecode_url: "queryDecode ''url'' = ''url''"
  by (simp add: queryDecode_def)

lemma queryParam_proxied: "queryParam ''url'' (getProxiedUrl u) = Some u"
  by (simp add: queryParam_def queryParams_def searchOf_def getProxiedUrl_def
      splitFirst_none splitAll_none encode_avoids queryPair_def queryDecode_encode
      queryDecode_url)

lemma queryParam_transcode: "queryParam ''url'' (getTranscodeUrl u) = Some u"
  by (simp add: queryParam_def queryParams_def searchOf_def getTranscodeUrl_def
      splitFirst_none splitAll_none encode_avoids queryPair_def queryDecode_encode
      queryDecode_url)

lemma encode_length: "length s \<le> length (encodeURIComponent s)"
  by (induction s) (auto simp: percentEncode_def)

lemma proxied_neq: "getProxiedUrl u \<noteq> u"
proof
  assume "getProxiedUrl u = u"
  then have "length (getProxiedUrl u) = length u" by simp
  with encode_length [of u] show False by (simp add: getProxiedUrl_def)
qed

lemma transcode_neq: "getTranscodeUrl u \<noteq> u"
proof
  assume "getTranscodeUrl u = u"
  then have "length (getTranscodeUrl u) = length u" by simp
  with encode_length [of u] show False by (simp add: getTranscodeUrl_def)
qed

lemma transcode_neq_proxied: "getTranscodeUrl u \<noteq> getProxiedUrl w"
  by (simp add: getTranscodeUrl_def getProxiedUrl_def)

section \<open>The player: lemmas\<close>

lemmas proj_defs = engineCreations_def sourceUrls_def proxiedBuilt_def transcodeBuilt_def

lemma proj_append:
  "engineCreations (xs @ ys) = engineCreations xs @ engineCreations ys"
  "proxiedBuilt (xs @ ys) = proxiedBuilt xs @ proxiedBuilt ys"
  "transcodeBuilt (xs @ ys) = transcodeBuilt xs @ transcodeBuilt ys"
  "sourceUrls (xs @ ys) = sourceUrls xs @ sourceUrls ys"
  by (simp_all add: proj_defs)

lemma proj_Cons:
  "engineCreations (x # xs) = createdBy x @ engineCreations xs"
  "proxiedBuilt (x # xs) = proxiedOf x @ proxiedBuilt xs"
  "transcodeBuilt (x # xs) = transcodedOf x @ transcodeBuilt xs"
  "sourceUrls (x # xs) = sourceOf x @ sourceUrls xs"
  "engineCreations [] = []" "proxiedBuilt [] = []" "transcodeBuilt [] = []"
  "sourceUrls [] = []"
  by (simp_all add: proj_defs)

lemma stopActions_proj:
  "engineCreations (stopActions p) = []" "proxiedBuilt (stopActions p) = []"
  "transcodeBuilt (stopActions p) = []" "sourceUrls (stopActions p) = [[]]"
  by (auto simp: proj_defs stopActions_def split: option.splits)

lemma trace_stop: "trace (stop p) = trace p @ stopActions p"
  by (simp add: stop_def stopActions_def emit_def Let_def split: option.splits)

lemma stop_fields:
  "hls (stop p) = None" "settings (stop p) = settings p"
  "isUsingProxy (stop p) = isUsingProxy p" "nextId (stop p) = nextId p"
  "videoSrc (stop p) = []" "pending (stop p) = pending p"
  "currentUrl (stop p) = currentUrl p" "currentChannel (stop p) = currentChannel p"
  "lastDiscontinuity (stop p) = lastDiscontinuity p"
  by (simp_all add: stop_def emit_def Let_def split: option.splits)

lemma play_transcode_trace:
  "forceTranscode (settings p) \<Longrightarrow>
   trace (play b ch u p) = trace p @ stopActions p @
     [HideOverlay, CallGetTranscodeUrl u, VideoSetSrc (getTranscodeUrl u), VideoPlay,
      UpdateNowPlaying, ShowNowPlayingOverlay, FetchEpgData, DispatchChannelChanged]"
  by (simp add: play_def Let_def announce_def setSrc_def emit_def trace_stop stop_fields
      stopActions_def)

lemma play_transcode_state:
  "forceTranscode (settings p) \<Longrightarrow>
   hls (play b ch u p) = None \<and> pending (play b ch u p) = pending p \<and>
   videoSrc (play b ch u p) = getTranscodeUrl u \<and>
   currentUrl (play b ch u p) = Some (getTranscodeUrl u) \<and>
   isUsingProxy (play b ch u p) = isUsingProxy p"
  by (simp add: play_def Let_def announce_def setSrc_def emit_def stop_fields)

lemma event_cases:
  obtains n where "e = PlayRejected n" | n where "e = PlayResolved n" | "engineEvent e"
  by (cases e) auto

lemma deliver_settle:
  "deliver (v, PlayRejected n) q = onPlayRejected n q"
  "deliver (v, PlayResolved n) q = onPlayResolved n q"
  by (simp_all add: deliver_def)

lemma deliver_engineEvent:
  "engineEvent e \<Longrightarrow>
   deliver (v, e) q = (case hls q of None \<Rightarrow> q | Some (h, k) \<Rightarrow> dispatch h k v e q)"
  by (cases e) (auto simp: deliver_def split: option.splits)

lemma deliver_idle: "hls q = None \<Longrightarrow> pending q = [] \<Longrightarrow> deliver ve q = q"
proof (cases ve)
  case (Pair v e)
  assume "hls q = None" and "pending q = []"
  then show ?thesis using Pair
    by (cases e rule: event_cases)
      (simp_all add: deliver_settle deliver_engineEvent onPlayRejected_def onPlayResolved_def)
qed

lemma deliverAll_idle: "hls q = None \<Longrightarrow> pending q = [] \<Longrightarrow> deliverAll evs q = q"
  by (induction evs) (simp_all add: deliverAll_def deliver_idle)

lemma quiet_Nil: "quiet []"
  by (simp add: quiet_def proj_Cons)

lemma quiet_append: "quiet (xs @ ys) = (quiet xs \<and> quiet ys)"
  by (auto simp: quiet_def proj_append)

lemma actionsSince_self: "actionsSince q q = []"
  by (simp add: actionsSince_def)

lemma actionsSince_emit: "actionsSince q (emit a q) = [a]"
  by (simp add: actionsSince_def emit_def)

lemma actionsSince_app: "trace r = trace q @ xs \<Longrightarrow> actionsSince q r = xs"
  by (simp add: actionsSince_def)

lemma hls_cases:
  obtains "hls q = None" | h where "hls q = Some (h, InitHandlers)"
  | h where "hls q = Some (h, PlayHandlers)"
proof (cases "hls q")
  case None
  then show ?thesis using that by simp
next
  case (Some hk)
  then show ?thesis using that by (cases hk; cases "snd hk") auto
qed

lemmas handler_defs = onError_def onFragChanged_def initOnError_def initOnFragChanged_def
  retryViaProxy_def onPlayRejected_def onPlayResolved_def setSrc_def emit_def Let_def

lemma trace_dispatch:
  "trace (dispatch h k v e q) = trace q @ actionsSince q (dispatch h k v e q)"
  by (cases k; cases e)
    (auto simp: handler_defs actionsSince_def trace_stop split: option.splits errorType.splits)

lemma trace_onPlayRejected:
  "trace (onPlayRejected n q) = trace q @ actionsSince q (onPlayRejected n q)"
  by (simp add: handler_defs actionsSince_def)

lemma trace_onPlayResolved:
  "trace (onPlayResolved n q) = trace q @ actionsSince q (onPlayResolved n q)"
  by (simp add: handler_defs actionsSince_def)

lemma trace_deliver: "trace (deliver ve q) = trace q @ actionsSince q (deliver ve q)"
proof (cases ve)
  case (Pair v e)
  show ?thesis
  proof (cases e rule: event_cases)
    case (1 n)
    then show ?thesis using Pair trace_onPlayRejected [of n q] by (simp add: deliver_settle)
  next
    case (2 n)
    then show ?thesis using Pair trace_onPlayResolved [of n q] by (simp add: deliver_settle)
  next
    case 3
    then show ?thesis using Pair trace_dispatch [of _ _ v e q]
      by (cases rule: hls_cases [of q]) (simp_all add: deliver_engineEvent actionsSince_def)
  qed
qed

lemma deliverAll_Cons: "deliverAll (ve # evs) q = deliverAll evs (deliver ve q)"
  by (simp add: deliverAll_def)

lemma deliverAll_Nil: "deliverAll [] q = q"
  by (simp add: deliverAll_def)

lemma deliverAll_snoc: "deliverAll (evs @ [ve]) q = deliver ve (deliverAll evs q)"
  by (simp add: deliverAll_def)

lemma trace_deliverAll: "trace (deliverAll evs q) = trace q @ actionsSince q (deliverAll evs q)"
proof (induction evs arbitrary: q)
  case Nil
  show ?case by (simp add: deliverAll_Nil actionsSince_self)
next
  case (Cons ve evs)
  have "trace (deliverAll (ve # evs) q) =
        trace q @ actionsSince q (deliver ve q) @
          actionsSince (deliver ve q) (deliverAll evs (deliver ve q))"
    using Cons [of "deliver ve q"] trace_deliver [of ve q] by (simp add: deliverAll_Cons)
  then show ?case by (simp add: actionsSince_def)
qed

lemma actionsSince_Cons:
  "actionsSince q (deliverAll (ve # evs) q) =
     actionsSince q (deliver ve q) @ actionsSince (deliver ve q) (deliverAll evs (deliver ve q))"
proof -
  have "trace (deliverAll (ve # evs) q) =
        trace q @ actionsSince q (deliver ve q) @
          actionsSince (deliver ve q) (deliverAll evs (deliver ve q))"
    using trace_deliverAll [of evs "deliver ve q"] trace_deliver [of ve q]
    by (simp add: deliverAll_Cons)
  then show ?thesis by (rule actionsSince_app)
qed

lemma actionsSince_snoc:
  "actionsSince q (deliverAll (evs @ [ve]) q) =
     actionsSince q (deliverAll evs q) @
       actionsSince (deliverAll evs q) (deliver ve (deliverAll evs q))"
proof -
  have "trace (deliverAll (evs @ [ve]) q) =
        trace q @ actionsSince q (deliverAll evs q) @
          actionsSince (deliverAll evs q) (deliver ve (deliverAll evs q))"
    using trace_deliverAll [of evs q] trace_deliver [of ve "deliverAll evs q"]
    by (simp add: deliverAll_snoc)
  then show ?thesis by (rule actionsSince_app)
qed

text \<open>No listener builds a transcode URL or creates an engine.\<close>

lemma dispatch_no_transcode:
  "transcodeBuilt (actionsSince q (dispatch h k v e q)) = [] \<and>
   engineCreations (actionsSince q (dispatch h k v e q)) = []"
  by (cases k; cases e)
    (auto simp: handler_defs actionsSince_def trace_stop proj_Cons stopActions_proj
      split: option.splits errorType.splits)

lemma deliver_no_transcode:
  "transcodeBuilt (actionsSince q (deliver ve q)) = [] \<and>
   engineCreations (actionsSince q (deliver ve q)) = []"
proof (cases ve)
  case (Pair v e)
  show ?thesis
  proof (cases e rule: event_cases)
    case (1 n)
    then show ?thesis using Pair
      by (simp add: deliver_settle handler_defs actionsSince_def proj_Cons)
  next
    case (2 n)
    then show ?thesis using Pair
      by (simp add: deliver_settle handler_defs actionsSince_def proj_Cons)
  next
    case 3
    then show ?thesis using Pair dispatch_no_transcode [of q _ _ v e]
      by (cases rule: hls_cases [of q])
        (simp_all add: deliver_engineEvent actionsSince_self proj_Cons)
  qed
qed

lemma deliverAll_no_transcode:
  "transcodeBuilt (actionsSince q (deliverAll evs q)) = [] \<and>
   engineCreations (actionsSince q (deliverAll evs q)) = []"
proof (induction evs arbitrary: q)
  case Nil
  show ?case by (simp add: deliverAll_Nil actionsSince_self proj_Cons)
next
  case (Cons ve evs)
  show ?case
    using Cons [of "deliver ve q"] deliver_no_transcode [of q ve]
    by (simp add: actionsSince_Cons proj_append)
qed

lemma deliver_relayed:
  assumes "relayed q"
  shows "relayed (deliver ve q) \<and> quiet (actionsSince q (deliver ve q))"
proof (cases ve)
  case (Pair v e)
  show ?thesis
  proof (cases e rule: event_cases)
    case (1 n)
    then show ?thesis using Pair assms
      by (auto simp: deliver_settle handler_defs actionsSince_def relayed_def quiet_def
          proj_Cons)
  next
    case (2 n)
    then show ?thesis using Pair assms
      by (auto simp: deliver_settle handler_defs actionsSince_def relayed_def quiet_def
          proj_Cons)
  next
    case 3
    show ?thesis
    proof (cases rule: hls_cases [of q])
      case 1
      then show ?thesis using Pair assms 3
        by (simp add: deliver_engineEvent actionsSince_self quiet_Nil)
    next
      case (2 h)
      then show ?thesis using assms by (simp add: relayed_def)
    next
      case (3 h)
      then show ?thesis using Pair assms \<open>engineEvent e\<close>
        by (cases e)
          (auto simp: deliver_def handler_defs actionsSince_def relayed_def quiet_def
            proj_Cons split: option.splits)
    qed
  qed
qed

lemma deliverAll_relayed:
  "relayed q \<Longrightarrow> relayed (deliverAll evs q) \<and> quiet (actionsSince q (deliverAll evs q))"
proof (induction evs arbitrary: q)
  case Nil
  then show ?case by (simp add: deliverAll_Nil actionsSince_self quiet_Nil)
next
  case (Cons ve evs)
  from deliver_relayed [OF Cons.prems, of ve]
  have r: "relayed (deliver ve q)" and s: "quiet (actionsSince q (deliver ve q))" by simp_all
  from Cons.IH [OF r] have a: "relayed (deliverAll (ve # evs) q)"
    by (simp add: deliverAll_Cons)
  from Cons.IH [OF r] s have b: "quiet (actionsSince q (deliverAll (ve # evs) q))"
    by (simp add: actionsSince_Cons quiet_append)
  from a b show ?case by simp
qed

lemma deliver_direct_quiet:
  assumes "directEngine h u q" and "\<not> corsFatal ve"
  shows "directEngine h u (deliver ve q) \<and> quiet (actionsSince q (deliver ve q))"
proof (cases ve)
  case (Pair v e)
  then show ?thesis using assms
    by (cases e)
      (auto simp: deliver_def handler_defs actionsSince_def directEngine_def quiet_def proj_Cons
        split: option.splits)
qed

lemma deliver_direct_escalates:
  assumes "directEngine h u q" and "corsFatal ve"
  shows "relayed (deliver ve q) \<and>
         actionsSince q (deliver ve q) =
           [CallGetProxiedUrl u, HlsLoadSource h (getProxiedUrl u), HlsStartLoad h]"
proof (cases ve)
  case (Pair v e)
  with assms(2) obtain d where e: "e = ERROR d" and f: "fatal d" "isCorsLikely d"
    by (cases e) auto
  show ?thesis using Pair e f assms(1)
    by (simp add: deliver_def handler_defs directEngine_def relayed_def
        actionsSince_def urlArg_def)
qed

lemmas play_defs = play_def Let_def announce_def setSrc_def emit_def newHls_def
  proxyRequiredDomains_def

lemma stopActions_channel [simp]: "stopActions (p\<lparr>currentChannel := c\<rparr>) = stopActions p"
  by (simp add: stopActions_def)

lemma play_direct_trace:
  assumes "\<not> forceProxy (settings p)" "\<not> forceTranscode (settings p)"
    "\<not> includesStr u ''pluto.tv''"
  shows "trace (play b ch u p) = trace p @ stopActions p @ HideOverlay #
           (if looksLikeHls u \<and> hlsSupported b
            then [HlsNew (nextId p), HlsLoadSource (nextId p) u, HlsAttachMedia (nextId p)]
            else [VideoSetSrc u, VideoPlay]) @
           [UpdateNowPlaying, ShowNowPlayingOverlay, FetchEpgData, DispatchChannelChanged]"
  using assms by (simp add: play_defs trace_stop stop_fields)

lemma play_direct_state:
  assumes "\<not> forceProxy (settings p)" "\<not> forceTranscode (settings p)"
    "\<not> includesStr u ''pluto.tv''"
  shows "\<not> isUsingProxy (play b ch u p)"
    "currentUrl (play b ch u p) = Some u"
    "hls (play b ch u p) =
       (if looksLikeHls u \<and> hlsSupported b then Some (nextId p, PlayHandlers) else None)"
    "pending (play b ch u p) =
       (if looksLikeHls u \<and> hlsSupported b then pending p
        else if canPlayHls b = Probably \<or> canPlayHls b = Maybe then pending p @ [u]
        else pending p)"
  using assms by (simp_all add: play_defs stop_fields)

lemma play_proxied_trace:
  assumes "\<not> forceTranscode (settings p)"
    "forceProxy (settings p) \<or> includesStr u ''pluto.tv''"
  shows "trace (play b ch u p) = trace p @ stopActions p @
           [HideOverlay, CallGetProxiedUrl u] @
           (if looksLikeHls (getProxiedUrl u) \<and> hlsSupported b
            then [HlsNew (nextId p), HlsLoadSource (nextId p) (getProxiedUrl u),
                  HlsAttachMedia (nextId p)]
            else [VideoSetSrc (getProxiedUrl u), VideoPlay]) @
           [UpdateNowPlaying, ShowNowPlayingOverlay, FetchEpgData, DispatchChannelChanged]"
  using assms by (auto simp: play_defs trace_stop stop_fields)

lemma play_proxied_state:
  assumes "\<not> forceTranscode (settings p)"
    "forceProxy (settings p) \<or> includesStr u ''pluto.tv''"
  shows "relayed (play b ch u p)"
  using assms by (auto simp: play_defs stop_fields relayed_def)

lemma play_engine_state:
  assumes "hls (play b ch u p) \<noteq> None"
  shows "hls (play b ch u p) = Some (nextId p, PlayHandlers) \<and>
         lastDiscontinuity (play b ch u p) = - 1"
  using assms by (auto simp: play_defs stop_fields split: if_splits)

lemma deliverAll_direct:
  assumes "directEngine h u q"
  shows "sourceUrls (actionsSince q (deliverAll evs q)) =
           (if list_ex corsFatal evs then [getProxiedUrl u] else []) \<and>
         proxiedBuilt (actionsSince q (deliverAll evs q)) =
           (if list_ex corsFatal evs then [u] else []) \<and>
         (\<not> list_ex corsFatal evs \<longrightarrow> directEngine h u (deliverAll evs q)) \<and>
         (list_ex corsFatal evs \<longrightarrow> relayed (deliverAll evs q))"
  using assms
proof (induction evs arbitrary: q)
  case Nil
  then show ?case by (simp add: deliverAll_Nil actionsSince_self proj_Cons)
next
  case (Cons ve evs)
  show ?case
  proof (cases "corsFatal ve")
    case True
    from deliver_direct_escalates [OF Cons.prems True]
    have r: "relayed (deliver ve q)"
      and a: "actionsSince q (deliver ve q) =
                [CallGetProxiedUrl u, HlsLoadSource h (getProxiedUrl u), HlsStartLoad h]"
      by simp_all
    from deliverAll_relayed [OF r, of evs]
    have r': "relayed (deliverAll evs (deliver ve q))"
      and s: "quiet (actionsSince (deliver ve q) (deliverAll evs (deliver ve q)))"
      by simp_all
    have c: "list_ex corsFatal (ve # evs)" using True by simp
    have r'': "relayed (deliverAll (ve # evs) q)" using r' by (simp add: deliverAll_Cons)
    have "sourceUrls (actionsSince q (deliverAll (ve # evs) q)) = [getProxiedUrl u]"
      "proxiedBuilt (actionsSince q (deliverAll (ve # evs) q)) = [u]"
      using a s by (simp_all add: actionsSince_Cons proj_append proj_Cons quiet_def)
    with c r'' show ?thesis by simp
  next
    case False
    from deliver_direct_quiet [OF Cons.prems False]
    have d: "directEngine h u (deliver ve q)" and s: "quiet (actionsSince q (deliver ve q))"
      by simp_all
    have c: "list_ex corsFatal (ve # evs) = list_ex corsFatal evs" using False by simp
    from Cons.IH [OF d] s
    have "sourceUrls (actionsSince q (deliverAll (ve # evs) q)) =
            (if list_ex corsFatal evs then [getProxiedUrl u] else [])"
      "proxiedBuilt (actionsSince q (deliverAll (ve # evs) q)) =
            (if list_ex corsFatal evs then [u] else [])"
      by (simp_all add: actionsSince_Cons proj_append quiet_def)
    moreover from Cons.IH [OF d]
    have "\<not> list_ex corsFatal evs \<longrightarrow> directEngine h u (deliverAll (ve # evs) q)"
      "list_ex corsFatal evs \<longrightarrow> relayed (deliverAll (ve # evs) q)"
      by (simp_all add: deliverAll_Cons)
    ultimately show ?thesis unfolding c by simp
  qed
qed

lemma engineEvent_simps:
  assumes "engineEvent e"
  shows "\<not> settles (v, e)" and "retried ((v, e) # evs) = retried evs"
  using assms by (cases e; simp)+

lemma deliver_native_other:
  assumes "nativeWait u q" and "\<not> settles ve"
  shows "deliver ve q = q"
proof (cases ve)
  case (Pair v e)
  then show ?thesis using assms
    by (cases e rule: event_cases)
      (simp_all add: deliver_settle deliver_engineEvent nativeWait_def onPlayRejected_def
        onPlayResolved_def)
qed

lemma deliver_native_resolved:
  assumes "nativeWait u q"
  shows "hls (deliver (v, PlayResolved 0) q) = None"
    and "pending (deliver (v, PlayResolved 0) q) = []"
    and "actionsSince q (deliver (v, PlayResolved 0) q) = []"
  using assms
  by (simp_all add: deliver_settle nativeWait_def onPlayResolved_def dropNth_def
      actionsSince_def)

lemma deliver_native_rejected:
  assumes "nativeWait u q"
  shows "hls (deliver (v, PlayRejected 0) q) = None"
    and "pending (deliver (v, PlayRejected 0) q) = []"
    and "isUsingProxy (deliver (v, PlayRejected 0) q)"
    and "actionsSince q (deliver (v, PlayRejected 0) q) =
           [CallGetProxiedUrl u, VideoSetSrc (getProxiedUrl u), VideoPlay]"
  using assms
  by (simp_all add: deliver_settle nativeWait_def handler_defs dropNth_def actionsSince_def)

lemma deliverAll_native:
  assumes "nativeWait u q"
  shows "sourceUrls (actionsSince q (deliverAll evs q)) =
           (if retried evs then [getProxiedUrl u] else []) \<and>
         proxiedBuilt (actionsSince q (deliverAll evs q)) =
           (if retried evs then [u] else []) \<and>
         (\<not> list_ex settles evs \<longrightarrow> deliverAll evs q = q)"
  using assms
proof (induction evs arbitrary: q)
  case Nil
  then show ?case by (simp add: deliverAll_Nil actionsSince_self proj_Cons)
next
  case (Cons ve evs)
  obtain v e where ve: "ve = (v, e)" by (cases ve)
  show ?case
  proof (cases "settles ve")
    case False
    from deliver_native_other [OF Cons.prems False] have d: "deliver ve q = q" .
    have r: "retried (ve # evs) = retried evs"
      using False ve by (cases e rule: event_cases) (simp_all add: engineEvent_simps)
    from Cons.IH [OF Cons.prems] d False show ?thesis
      unfolding r by (simp add: deliverAll_Cons)
  next
    case True
    then consider "e = PlayRejected 0" | "e = PlayResolved 0"
      using ve by (cases e rule: event_cases) (simp_all add: engineEvent_simps)
    then show ?thesis
    proof cases
      case 1
      note f = deliver_native_rejected [OF Cons.prems, of v]
      have i: "deliverAll evs (deliver ve q) = deliver ve q"
        using f(1,2) 1 ve by (simp add: deliverAll_idle)
      have "actionsSince q (deliverAll (ve # evs) q) =
              [CallGetProxiedUrl u, VideoSetSrc (getProxiedUrl u), VideoPlay]"
        using f(4) i 1 ve by (simp add: deliverAll_Cons)
      then show ?thesis using True 1 ve by (simp add: proj_Cons)
    next
      case 2
      note f = deliver_native_resolved [OF Cons.prems, of v]
      have i: "deliverAll evs (deliver ve q) = deliver ve q"
        using f(1,2) 2 ve by (simp add: deliverAll_idle)
      have "actionsSince q (deliverAll (ve # evs) q) = []"
        using f(3) i 2 ve by (simp add: deliverAll_Cons)
      then show ?thesis using True 2 ve by (simp add: proj_Cons)
    qed
  qed
qed

lemma set_dropNth: "set (dropNth n xs) \<subseteq> set xs"
  by (auto simp: dropNth_def dest: in_set_takeD in_set_dropD)

lemma deliver_unengined:
  assumes "hls q = None"
  shows "hls (deliver ve q) = None \<and>
         set (pending (deliver ve q)) \<subseteq> set (pending q) \<and>
         set (proxiedBuilt (actionsSince q (deliver ve q))) \<subseteq> set (pending q)"
proof (cases ve)
  case (Pair v e)
  show ?thesis
  proof (cases e rule: event_cases)
    case (1 n)
    then show ?thesis using Pair assms set_dropNth [of n "pending q"]
      by (auto simp: deliver_settle handler_defs actionsSince_def proj_Cons)
  next
    case (2 n)
    then show ?thesis using Pair assms set_dropNth [of n "pending q"]
      by (auto simp: deliver_settle handler_defs actionsSince_def proj_Cons)
  next
    case 3
    then show ?thesis using Pair assms
      by (simp add: deliver_engineEvent actionsSince_self proj_Cons)
  qed
qed

lemma deliverAll_unengined:
  assumes "hls q = None"
  shows "hls (deliverAll evs q) = None \<and>
         set (proxiedBuilt (actionsSince q (deliverAll evs q))) \<subseteq> set (pending q)"
  using assms
proof (induction evs arbitrary: q)
  case Nil
  then show ?case by (simp add: deliverAll_Nil actionsSince_self proj_Cons)
next
  case (Cons ve evs)
  from deliver_unengined [OF Cons.prems, of ve]
  have h: "hls (deliver ve q) = None"
    and s: "set (pending (deliver ve q)) \<subseteq> set (pending q)"
    and b: "set (proxiedBuilt (actionsSince q (deliver ve q))) \<subseteq> set (pending q)"
    by simp_all
  from Cons.IH [OF h] have n: "hls (deliverAll (ve # evs) q) = None"
    by (simp add: deliverAll_Cons)
  from Cons.IH [OF h] s b
  have "set (proxiedBuilt (actionsSince q (deliverAll (ve # evs) q))) \<subseteq> set (pending q)"
    by (auto simp: actionsSince_Cons proj_append)
  with n show ?case by simp
qed

lemma deliverAll_append: "deliverAll (xs @ ys) q = deliverAll ys (deliverAll xs q)"
  by (simp add: deliverAll_def)

lemma play_direct_actions:
  assumes "\<not> forceProxy (settings p)" "\<not> forceTranscode (settings p)"
    "\<not> includesStr u ''pluto.tv''"
  shows "sourceUrls (actionsSince p (play b ch u p)) = [[], u]"
    "proxiedBuilt (actionsSince p (play b ch u p)) = []"
    "transcodeBuilt (actionsSince p (play b ch u p)) = []"
  by (simp_all add: actionsSince_def play_direct_trace [OF assms] proj_append proj_Cons
      stopActions_proj)

lemmas ex_defs = exBrowser_def exNativeBrowser_def exVideo_def exNetworkError_def exMediaError_def
  defaultSettings_def

lemmas eval_defs = newPlayer_def play_def announce_def newHls_def proxyRequiredDomains_def
  stop_def deliverAll_def deliver_def handler_defs actionsSince_def isCorsLikely_def
  playing_def looksLikeHls_def urlArg_def dropNth_def

lemma play_proxied_actions:
  assumes "\<not> forceTranscode (settings p)"
    "forceProxy (settings p) \<or> includesStr u ''pluto.tv''"
  shows "sourceUrls (actionsSince p (play b ch u p)) = [[], getProxiedUrl u]"
    "proxiedBuilt (actionsSince p (play b ch u p)) = [u]"
    "transcodeBuilt (actionsSince p (play b ch u p)) = []"
  by (simp_all add: actionsSince_def play_proxied_trace [OF assms] proj_append proj_Cons
      stopActions_proj)

lemma frag_step:
  assumes "hls q = Some (h, PlayHandlers)" and "playing v"
  shows "deliver (fragChanged v n c) q =
           (if c = lastDiscontinuity q then q
            else if lastDiscontinuity q = - 1 then q\<lparr>lastDiscontinuity := c\<rparr>
            else emit (VideoSeekBy 1) (q\<lparr>lastDiscontinuity := c\<rparr>))"
  using assms by (simp add: fragChanged_def deliver_def onFragChanged_def Let_def)

lemma engineStep_neutral: "engineNeutral a \<Longrightarrow> engineStep a s = s"
  by (cases a; cases s) simp_all

lemma enginesOk_append:
  "enginesOk s (xs @ ys) = (enginesOk s xs \<and> enginesOk (foldl (\<lambda>s a. engineStep a s) s xs) ys)"
  by (induction xs arbitrary: s) (auto, (cases ys; simp)+)

lemma foldl_neutral: "list_all engineNeutral xs \<Longrightarrow> foldl (\<lambda>s a. engineStep a s) s xs = s"
  by (induction xs) (simp_all add: engineStep_neutral)

lemma enginesOk_neutral:
  "list_all engineNeutral xs \<Longrightarrow> enginesOk s xs = (length (fst s) \<le> 1 \<and> length (snd s) \<le> 1)"
  by (induction xs) (auto simp: engineStep_neutral)

lemma enginesAfter_append:
  "enginesAfter (t @ xs) = foldl (\<lambda>s a. engineStep a s) (enginesAfter t) xs"
  by (simp add: enginesAfter_def)

lemma singleEngine_append:
  "singleEngine (t @ xs) = (singleEngine t \<and> enginesOk (enginesAfter t) xs)"
  by (simp add: singleEngine_def enginesOk_append enginesAfter_def)

lemma removeAll_only: "set xs \<subseteq> {h} \<Longrightarrow> removeAll h xs = []"
  by (induction xs) auto

lemma liveOf_length: "length (liveOf q) \<le> 1"
  by (simp add: liveOf_def split: option.splits)

lemma engineInv_neutral:
  assumes "engineInv q" and "trace r = trace q @ xs" and "list_all engineNeutral xs"
    and "hls r = hls q"
  shows "engineInv r"
proof -
  have e: "enginesAfter (trace r) = enginesAfter (trace q)"
    using assms(2,3) by (simp add: enginesAfter_append foldl_neutral)
  have l: "liveOf r = liveOf q" using assms(4) by (simp add: liveOf_def)
  have "enginesOk (enginesAfter (trace q)) xs"
    using assms(1,3) liveOf_length [of q] by (simp add: enginesOk_neutral engineInv_def)
  then have "singleEngine (trace r)"
    using assms(1,2) by (simp add: singleEngine_append engineInv_def)
  with assms(1) e l show ?thesis by (simp add: engineInv_def)
qed

lemma engineInv_newPlayer: "engineInv (newPlayer b s)"
  by (simp add: engineInv_def newPlayer_def newHls_def emit_def singleEngine_def
      enginesAfter_def liveOf_def Let_def)

lemma stopActions_engines:
  assumes "engineInv q"
  shows "enginesAfter (trace q @ stopActions q) = ([], [])"
    and "enginesOk (enginesAfter (trace q)) (stopActions q)"
proof -
  obtain lv av where s: "enginesAfter (trace q) = (lv, av)" by (cases "enginesAfter (trace q)")
  from assms s have lv: "lv = liveOf q" and av: "set av \<subseteq> set (liveOf q)" "length av \<le> 1"
    by (simp_all add: engineInv_def)
  show "enginesAfter (trace q @ stopActions q) = ([], [])"
  proof (cases "hls q")
    case None
    with lv av s show ?thesis
      by (simp add: enginesAfter_append stopActions_def liveOf_def)
  next
    case (Some hk)
    obtain h k where hk: "hk = (h, k)" by (cases hk)
    with Some lv av have "lv = [h]" "set av \<subseteq> {h}" by (simp_all add: liveOf_def)
    then have "removeAll h lv = []" "removeAll h av = []" by (simp_all add: removeAll_only)
    with Some hk s show ?thesis
      by (simp add: enginesAfter_append stopActions_def)
  qed
  show "enginesOk (enginesAfter (trace q)) (stopActions q)"
  proof (cases "hls q")
    case None
    with lv av s show ?thesis
      by (simp add: stopActions_def liveOf_def)
  next
    case (Some hk)
    obtain h k where hk: "hk = (h, k)" by (cases hk)
    with Some lv av have "lv = [h]" "set av \<subseteq> {h}" by (simp_all add: liveOf_def)
    then have "removeAll h lv = []" "removeAll h av = []" by (simp_all add: removeAll_only)
    with Some hk s av \<open>lv = [h]\<close> show ?thesis
      by (simp add: stopActions_def)
  qed
qed

lemma engineInv_idle:
  assumes "trace r = trace q @ xs" and "enginesAfter (trace q) = ([], [])"
    and "singleEngine (trace q)" and "list_all engineNeutral xs" and "hls r = None"
  shows "engineInv r"
  using assms
  by (simp add: engineInv_def singleEngine_append enginesAfter_append foldl_neutral
      enginesOk_neutral liveOf_def)

lemma engineInv_stop:
  assumes "engineInv q"
  shows "engineInv (stop q)"
proof -
  note e = stopActions_engines [OF assms]
  have s: "singleEngine (trace q @ stopActions q)"
    using assms e(2) by (simp add: singleEngine_append engineInv_def)
  show ?thesis
    using e(1) s
    by (simp add: engineInv_def trace_stop stop_fields liveOf_def)
qed

lemma play_proxied_hls:
  assumes "\<not> forceTranscode (settings p)"
    "forceProxy (settings p) \<or> includesStr u ''pluto.tv''"
  shows "hls (play b ch u p) =
       (if looksLikeHls (getProxiedUrl u) \<and> hlsSupported b
        then Some (nextId p, PlayHandlers) else None)"
  using assms by (auto simp: play_defs stop_fields)

lemma engineInv_created:
  assumes "trace r = t @ pre @ [HlsNew h, HlsLoadSource h f, HlsAttachMedia h] @ post"
    and "enginesAfter t = ([], [])" and "singleEngine t"
    and "list_all engineNeutral pre" and "list_all engineNeutral post"
    and "hls r = Some (h, k)"
  shows "engineInv r"
  using assms
  by (simp add: engineInv_def singleEngine_append enginesAfter_append foldl_neutral
      enginesOk_neutral enginesOk_append liveOf_def)

lemma engineInv_idle':
  assumes "trace r = t @ xs" and "enginesAfter t = ([], [])"
    and "singleEngine t" and "list_all engineNeutral xs" and "hls r = None"
  shows "engineInv r"
  using assms
  by (simp add: engineInv_def singleEngine_append enginesAfter_append foldl_neutral
      enginesOk_neutral liveOf_def)

lemma engineInv_play:
  assumes "engineInv p"
  shows "engineInv (play b ch u p)"
proof -
  let ?t = "trace p @ stopActions p"
  note e = stopActions_engines [OF assms]
  have s: "singleEngine ?t"
    using assms e(2) by (simp add: singleEngine_append engineInv_def)
  show ?thesis
  proof (cases "forceTranscode (settings p)")
    case True
    show ?thesis
      by (rule engineInv_idle' [OF _ e(1) s, where xs = "[HideOverlay, CallGetTranscodeUrl u,
            VideoSetSrc (getTranscodeUrl u), VideoPlay, UpdateNowPlaying,
            ShowNowPlayingOverlay, FetchEpgData, DispatchChannelChanged]"])
        (simp_all add: play_transcode_trace [OF True] play_transcode_state [OF True])
  next
    case ft: False
    show ?thesis
    proof (cases "forceProxy (settings p) \<or> includesStr u ''pluto.tv''")
      case True
      note tr = play_proxied_trace [OF ft True, of b ch]
      note hl = play_proxied_hls [OF ft True, of b ch]
      show ?thesis
      proof (cases "looksLikeHls (getProxiedUrl u) \<and> hlsSupported b")
        case eng: True
        show ?thesis
          by (rule engineInv_created [OF _ e(1) s, where pre = "[HideOverlay, CallGetProxiedUrl u]"
                and h = "nextId p" and f = "getProxiedUrl u" and k = PlayHandlers
                and post = "[UpdateNowPlaying, ShowNowPlayingOverlay, FetchEpgData,
                  DispatchChannelChanged]"])
            (use eng in \<open>simp_all add: tr hl\<close>)
      next
        case False
        show ?thesis
          by (rule engineInv_idle' [OF _ e(1) s, where xs = "[HideOverlay, CallGetProxiedUrl u,
                VideoSetSrc (getProxiedUrl u), VideoPlay, UpdateNowPlaying,
                ShowNowPlayingOverlay, FetchEpgData, DispatchChannelChanged]"])
            (use False in \<open>simp_all add: tr hl\<close>)
      qed
    next
      case False
      then have a: "\<not> forceProxy (settings p)" and c: "\<not> includesStr u ''pluto.tv''"
        by simp_all
      note tr = play_direct_trace [OF a ft c, of b ch]
      note st = play_direct_state [OF a ft c, of b ch]
      show ?thesis
      proof (cases "looksLikeHls u \<and> hlsSupported b")
        case eng: True
        show ?thesis
          by (rule engineInv_created [OF _ e(1) s, where pre = "[HideOverlay]"
                and h = "nextId p" and f = u and k = PlayHandlers
                and post = "[UpdateNowPlaying, ShowNowPlayingOverlay, FetchEpgData,
                  DispatchChannelChanged]"])
            (use eng in \<open>simp_all add: tr st\<close>)
      next
        case False
        show ?thesis
          by (rule engineInv_idle' [OF _ e(1) s, where xs = "[HideOverlay,
                VideoSetSrc u, VideoPlay, UpdateNowPlaying,
                ShowNowPlayingOverlay, FetchEpgData, DispatchChannelChanged]"])
            (use False in \<open>simp_all add: tr st\<close>)
      qed
    qed
  qed
qed

lemma dispatch_engine:
  "dispatch h k v e q = stop q \<or>
   (hls (dispatch h k v e q) = hls q \<and>
    list_all engineNeutral (actionsSince q (dispatch h k v e q)))"
  by (cases k; cases e)
    (auto simp: handler_defs actionsSince_def split: option.splits errorType.splits)

lemma deliver_engine:
  "deliver ve q = stop q \<or>
   (hls (deliver ve q) = hls q \<and> list_all engineNeutral (actionsSince q (deliver ve q)))"
proof (cases ve)
  case (Pair v e)
  show ?thesis
  proof (cases e rule: event_cases)
    case (1 n)
    then show ?thesis using Pair
      by (simp add: deliver_settle handler_defs actionsSince_def)
  next
    case (2 n)
    then show ?thesis using Pair
      by (simp add: deliver_settle handler_defs actionsSince_def)
  next
    case 3
    then show ?thesis using Pair dispatch_engine [of _ _ v e q]
      by (cases rule: hls_cases [of q]) (auto simp: deliver_engineEvent actionsSince_self)
  qed
qed

lemma engineInv_deliver:
  assumes "engineInv q"
  shows "engineInv (deliver ve q)"
  using deliver_engine [of ve q]
proof
  assume "deliver ve q = stop q"
  then show ?thesis using engineInv_stop [OF assms] by simp
next
  assume a: "hls (deliver ve q) = hls q \<and>
    list_all engineNeutral (actionsSince q (deliver ve q))"
  show ?thesis
    by (rule engineInv_neutral [OF assms trace_deliver]) (use a in simp_all)
qed

lemma engineInv_exec: "engineInv q \<Longrightarrow> engineInv (exec b c q)"
proof (cases c)
  case (Configure s)
  assume "engineInv q"
  then show ?thesis using Configure by (simp add: engineInv_def liveOf_def)
qed (simp_all add: engineInv_play engineInv_stop engineInv_deliver)

lemma engineInv_run: "engineInv q \<Longrightarrow> engineInv (runCommands b cs q)"
proof (induction cs arbitrary: q)
  case Nil
  then show ?case by (simp add: runCommands_def)
next
  case (Cons c cs)
  from Cons.IH [OF engineInv_exec [OF Cons.prems, of b c]] show ?case
    by (simp add: runCommands_def)
qed

lemma play_starts_with_stop: "\<exists>rest. actionsSince p (play b ch u p) = stopActions p @ rest"
proof (cases "forceTranscode (settings p)")
  case True
  then show ?thesis by (simp add: actionsSince_def play_transcode_trace)
next
  case ft: False
  show ?thesis
  proof (cases "forceProxy (settings p) \<or> includesStr u ''pluto.tv''")
    case True
    show ?thesis by (simp add: actionsSince_def play_proxied_trace [OF ft True])
  next
    case False
    then have a: "\<not> forceProxy (settings p)" and c: "\<not> includesStr u ''pluto.tv''"
      by simp_all
    show ?thesis by (simp add: actionsSince_def play_direct_trace [OF a ft c])
  qed
qed

section \<open>The transcode route: lemmas\<close>

lemma connRun_dead: "\<not> process c \<Longrightarrow> connRun es c = c"
  by (induction es) (simp_all add: connRun_def connStep_def)

lemma connStep_process: "process (connStep e c) = process c"
  by (cases e) (simp_all add: connStep_def)

lemma connRun_process: "process (connRun es c) = process c"
  by (induction es arbitrary: c) (simp_all add: connRun_def connStep_process)

lemma connStep_kills:
  "process c \<Longrightarrow>
   kills (effects (connStep e c)) =
     kills (effects c) @ (if e = ReqClose then [''SIGKILL''] else [])"
  by (cases e) (simp_all add: connStep_def kills_def)

lemma connRun_kills:
  "process c \<Longrightarrow>
   kills (effects (connRun es c)) =
     kills (effects c) @ replicate (count_list es ReqClose) ''SIGKILL''"
proof (induction es arbitrary: c)
  case Nil
  then show ?case by (simp add: connRun_def)
next
  case (Cons e es)
  have p: "process (connStep e c)" using Cons.prems by (simp add: connStep_process)
  have "connRun (e # es) c = connRun es (connStep e c)" by (simp add: connRun_def)
  then show ?case
    using Cons.IH [OF p] connStep_kills [OF Cons.prems, of e]
    by (simp add: replicate_app_Cons_same)
qed

lemma connRun_snoc: "connRun (es @ [e]) c = connStep e (connRun es c)"
  by (simp add: connRun_def)

section \<open>The claims\<close>

text \<open>
  Claim C1. When \<open>forceTranscode\<close> is set, a play request does the calls of \<open>stop\<close>, builds
  the transcode URL, gives it to the video element and plays it: no engine instance is
  created, no relayed URL is built, the only source set after the clearing of \<open>stop\<close> is
  the transcode URL (which is neither the origin URL nor a relayed URL), and the request
  installs no retry handler. In the session that follows no engine is created and no
  transcode URL is built. A retry handler that an earlier native-path request left
  pending is not cancelled by \<open>play\<close> and may still run: every relayed URL built in the
  session is built by such a handler, for the stream of its own request; with none
  pending, no event makes the player do anything.
\<close>

theorem force_transcode_only:
  assumes "forceTranscode (settings p)"
  shows "actionsSince p (play b ch u p) = stopActions p @
           [HideOverlay, CallGetTranscodeUrl u, VideoSetSrc (getTranscodeUrl u), VideoPlay,
            UpdateNowPlaying, ShowNowPlayingOverlay, FetchEpgData, DispatchChannelChanged]
         \<and> engineCreations (actionsSince p (play b ch u p)) = []
         \<and> proxiedBuilt (actionsSince p (play b ch u p)) = []
         \<and> sourceUrls (actionsSince p (play b ch u p)) = [[], getTranscodeUrl u]
         \<and> hls (play b ch u p) = None
         \<and> videoSrc (play b ch u p) = getTranscodeUrl u
         \<and> getTranscodeUrl u \<noteq> u
         \<and> getTranscodeUrl u \<noteq> getProxiedUrl u
         \<and> pending (play b ch u p) = pending p
         \<and> engineCreations (actionsSince (play b ch u p) (deliverAll evs (play b ch u p))) = []
         \<and> transcodeBuilt (actionsSince (play b ch u p) (deliverAll evs (play b ch u p))) = []
         \<and> set (proxiedBuilt (actionsSince (play b ch u p) (deliverAll evs (play b ch u p))))
             \<subseteq> set (pending p)
         \<and> (pending p = [] \<longrightarrow> deliverAll evs (play b ch u p) = play b ch u p)"
proof -
  note t = play_transcode_trace [OF assms, of b ch u]
  note s = play_transcode_state [OF assms, of b ch u]
  have a: "actionsSince p (play b ch u p) = stopActions p @
           [HideOverlay, CallGetTranscodeUrl u, VideoSetSrc (getTranscodeUrl u), VideoPlay,
            UpdateNowPlaying, ShowNowPlayingOverlay, FetchEpgData, DispatchChannelChanged]"
    by (simp add: actionsSince_def t)
  have b: "engineCreations (actionsSince p (play b ch u p)) = []"
    by (simp add: a proj_append proj_Cons stopActions_proj)
  have c: "proxiedBuilt (actionsSince p (play b ch u p)) = []"
    by (simp add: a proj_append proj_Cons stopActions_proj)
  have d: "sourceUrls (actionsSince p (play b ch u p)) = [[], getTranscodeUrl u]"
    by (simp add: a proj_append proj_Cons stopActions_proj)
  have h: "hls (play b ch u p) = None" using s by simp
  have e: "pending p = [] \<longrightarrow> deliverAll evs (play b ch u p) = play b ch u p"
    using s by (simp add: deliverAll_idle)
  have f: "set (proxiedBuilt (actionsSince (play b ch u p) (deliverAll evs (play b ch u p))))
             \<subseteq> set (pending p)"
    using deliverAll_unengined [OF h, of evs] s by simp
  from a b c d e f s deliverAll_no_transcode [of "play b ch u p" evs] show ?thesis
    by (simp add: transcode_neq transcode_neq_proxied)
qed

theorem force_transcode_only_witness:
  "forceTranscode (settings (newPlayer exBrowser \<lparr>forceProxy = False, forceTranscode = True\<rparr>))
   \<and> pending (newPlayer exBrowser \<lparr>forceProxy = False, forceTranscode = True\<rparr>) = []
   \<and> actionsSince
       (newPlayer exBrowser \<lparr>forceProxy = False, forceTranscode = True\<rparr>)
       (play exBrowser (Channel ''News'') ''http://tv.example/a.m3u8''
          (newPlayer exBrowser \<lparr>forceProxy = False, forceTranscode = True\<rparr>))
     = [HlsDestroy 0, VideoPause, VideoSetSrc [], VideoLoad, HideOverlay,
        CallGetTranscodeUrl ''http://tv.example/a.m3u8'',
        VideoSetSrc (getTranscodeUrl ''http://tv.example/a.m3u8''), VideoPlay,
        UpdateNowPlaying, ShowNowPlayingOverlay, FetchEpgData, DispatchChannelChanged]
   \<and> getTranscodeUrl ''http://tv.example/a.m3u8'' =
       ''/api/transcode?url=http%3A%2F%2Ftv.example%2Fa.m3u8''
   \<and> deliverAll [(exVideo, PlayRejected 0), (exVideo, ERROR exNetworkError)]
        (play exBrowser (Channel ''News'') ''http://tv.example/a.m3u8''
          (newPlayer exBrowser \<lparr>forceProxy = False, forceTranscode = True\<rparr>))
     = play exBrowser (Channel ''News'') ''http://tv.example/a.m3u8''
          (newPlayer exBrowser \<lparr>forceProxy = False, forceTranscode = True\<rparr>)"
proof -
  have h: "forceTranscode (settings (newPlayer exBrowser
             \<lparr>forceProxy = False, forceTranscode = True\<rparr>))"
    and n: "pending (newPlayer exBrowser \<lparr>forceProxy = False, forceTranscode = True\<rparr>) = []"
    and k: "hls (newPlayer exBrowser \<lparr>forceProxy = False, forceTranscode = True\<rparr>) =
              Some (0, InitHandlers)"
    by (simp_all add: newPlayer_def newHls_def emit_def ex_defs)
  have e: "getTranscodeUrl ''http://tv.example/a.m3u8'' =
             ''/api/transcode?url=http%3A%2F%2Ftv.example%2Fa.m3u8''"
    by (simp add: getTranscodeUrl_def uriUnescaped_def percentEncode_def hexDigit_def)
  from force_transcode_only [OF h, of exBrowser "Channel ''News''"
      "''http://tv.example/a.m3u8''"
      "[(exVideo, PlayRejected 0), (exVideo, ERROR exNetworkError)]"] h n k e
  show ?thesis by (simp add: stopActions_def)
qed

text \<open>
  Claim C2, as amended. With \<open>forceProxy\<close> and \<open>forceTranscode\<close> off and a URL that does
  not contain \<open>pluto.tv\<close>, \<open>play\<close> leaves the proxy flag off and loads the origin URL
  unmodified, building no relayed and no transcode URL, and no transcode URL is built in
  the session. When no retry handler of an earlier native-path request is pending, the
  session escalates as its playback path does. On the engine path the relayed URL is
  loaded exactly when a fatal error classified as network or CORS occurs: the first such
  error makes the engine load the proxied URL and restart, and nothing after it loads a
  source or builds a URL. On the native path the retry handler of the request is the
  only one pending, and the relayed URL is loaded exactly when the promise of
  \<open>video.play()\<close> is rejected: the rejection builds the relayed URL, gives it to the
  video element and plays it, and nothing happens after it. On the direct-element path
  nothing ever escalates.
\<close>

theorem direct_then_one_relay:
  fixes p :: player and b :: browser and ch :: channel and u :: url
    and evs post :: "(video \<times> event) list" and ve :: "video \<times> event" and v :: video
  defines "q \<equiv> play b ch u p"
  assumes "\<not> forceProxy (settings p)" and "\<not> forceTranscode (settings p)"
    and "\<not> includesStr u ''pluto.tv''"
  shows "\<not> isUsingProxy q
       \<and> sourceUrls (actionsSince p q) = [[], u]
       \<and> proxiedBuilt (actionsSince p q) = []
       \<and> transcodeBuilt (actionsSince p q) = []
       \<and> transcodeBuilt (actionsSince q (deliverAll evs q)) = []
       \<and> (pending p = [] \<longrightarrow>
           (looksLikeHls u \<and> hlsSupported b \<longrightarrow>
              hls q = Some (nextId p, PlayHandlers)
            \<and> sourceUrls (actionsSince q (deliverAll evs q)) =
                (if list_ex corsFatal evs then [getProxiedUrl u] else [])
            \<and> proxiedBuilt (actionsSince q (deliverAll evs q)) =
                (if list_ex corsFatal evs then [u] else [])
            \<and> (\<not> list_ex corsFatal evs \<and> corsFatal ve \<longrightarrow>
                 actionsSince (deliverAll evs q) (deliverAll (evs @ [ve]) q) =
                   [CallGetProxiedUrl u, HlsLoadSource (nextId p) (getProxiedUrl u),
                    HlsStartLoad (nextId p)]
               \<and> quiet (actionsSince (deliverAll (evs @ [ve]) q)
                          (deliverAll (evs @ ve # post) q))))
         \<and> (\<not> (looksLikeHls u \<and> hlsSupported b) \<and>
            (canPlayHls b = Probably \<or> canPlayHls b = Maybe) \<longrightarrow>
              hls q = None \<and> pending q = [u]
            \<and> sourceUrls (actionsSince q (deliverAll evs q)) =
                (if retried evs then [getProxiedUrl u] else [])
            \<and> proxiedBuilt (actionsSince q (deliverAll evs q)) =
                (if retried evs then [u] else [])
            \<and> (\<not> list_ex settles evs \<longrightarrow>
                 actionsSince (deliverAll evs q)
                   (deliverAll (evs @ [(v, PlayRejected 0)]) q) =
                   [CallGetProxiedUrl u, VideoSetSrc (getProxiedUrl u), VideoPlay]
               \<and> deliverAll (evs @ (v, PlayRejected 0) # post) q =
                   deliverAll (evs @ [(v, PlayRejected 0)]) q))
         \<and> (\<not> (looksLikeHls u \<and> hlsSupported b) \<and> canPlayHls b = NoSupport \<longrightarrow>
              deliverAll evs q = q))"
    (is "_ \<and> _ \<and> _ \<and> _ \<and> _ \<and> (_ \<longrightarrow> ?E \<and> ?N \<and> ?D)")
proof -
  note st = play_direct_state [OF assms(2-4), of b ch, folded q_def]
  note ac = play_direct_actions [OF assms(2-4), of b ch, folded q_def]
  have t: "transcodeBuilt (actionsSince q (deliverAll evs q)) = []"
    by (simp add: deliverAll_no_transcode)
  have eng: ?E if pe: "pending p = []"
  proof
    assume e: "looksLikeHls u \<and> hlsSupported b"
    then have h: "hls q = Some (nextId p, PlayHandlers)" using st by simp
    from e have d: "directEngine (nextId p) u q"
      using st pe by (simp add: directEngine_def)
    note da = deliverAll_direct [OF d, of evs]
    have first: "\<not> list_ex corsFatal evs \<and> corsFatal ve \<longrightarrow>
               actionsSince (deliverAll evs q) (deliverAll (evs @ [ve]) q) =
                 [CallGetProxiedUrl u, HlsLoadSource (nextId p) (getProxiedUrl u),
                  HlsStartLoad (nextId p)]
             \<and> quiet (actionsSince (deliverAll (evs @ [ve]) q)
                        (deliverAll (evs @ ve # post) q))"
    proof
      assume c: "\<not> list_ex corsFatal evs \<and> corsFatal ve"
      with da have d': "directEngine (nextId p) u (deliverAll evs q)" by simp
      from deliver_direct_escalates [OF d', of ve] c
      have r: "relayed (deliver ve (deliverAll evs q))"
        and a: "actionsSince (deliverAll evs q) (deliver ve (deliverAll evs q)) =
                 [CallGetProxiedUrl u, HlsLoadSource (nextId p) (getProxiedUrl u),
                  HlsStartLoad (nextId p)]"
        by simp_all
      have split: "deliverAll (evs @ ve # post) q = deliverAll post (deliverAll (evs @ [ve]) q)"
        using deliverAll_append [of "evs @ [ve]" post q] by simp
      from deliverAll_relayed [OF r, of post]
      have "quiet (actionsSince (deliverAll (evs @ [ve]) q) (deliverAll (evs @ ve # post) q))"
        unfolding split by (simp add: deliverAll_snoc)
      with a show "actionsSince (deliverAll evs q) (deliverAll (evs @ [ve]) q) =
                 [CallGetProxiedUrl u, HlsLoadSource (nextId p) (getProxiedUrl u),
                  HlsStartLoad (nextId p)]
             \<and> quiet (actionsSince (deliverAll (evs @ [ve]) q)
                        (deliverAll (evs @ ve # post) q))"
        by (simp add: deliverAll_snoc)
    qed
    from h da first show "hls q = Some (nextId p, PlayHandlers)
          \<and> sourceUrls (actionsSince q (deliverAll evs q)) =
              (if list_ex corsFatal evs then [getProxiedUrl u] else [])
          \<and> proxiedBuilt (actionsSince q (deliverAll evs q)) =
              (if list_ex corsFatal evs then [u] else [])
          \<and> (\<not> list_ex corsFatal evs \<and> corsFatal ve \<longrightarrow>
               actionsSince (deliverAll evs q) (deliverAll (evs @ [ve]) q) =
                 [CallGetProxiedUrl u, HlsLoadSource (nextId p) (getProxiedUrl u),
                  HlsStartLoad (nextId p)]
             \<and> quiet (actionsSince (deliverAll (evs @ [ve]) q)
                        (deliverAll (evs @ ve # post) q)))"
      by simp
  qed
  have nat: ?N if pe: "pending p = []"
  proof
    assume n: "\<not> (looksLikeHls u \<and> hlsSupported b) \<and>
          (canPlayHls b = Probably \<or> canPlayHls b = Maybe)"
    then have h: "hls q = None" and pq: "pending q = [u]"
      using st pe by auto
    then have w: "nativeWait u q" using st(1) by (simp add: nativeWait_def)
    note dn = deliverAll_native [OF w, of evs]
    have first: "\<not> list_ex settles evs \<longrightarrow>
               actionsSince (deliverAll evs q) (deliverAll (evs @ [(v, PlayRejected 0)]) q) =
                 [CallGetProxiedUrl u, VideoSetSrc (getProxiedUrl u), VideoPlay]
             \<and> deliverAll (evs @ (v, PlayRejected 0) # post) q =
                 deliverAll (evs @ [(v, PlayRejected 0)]) q"
    proof
      assume c: "\<not> list_ex settles evs"
      with dn have same: "deliverAll evs q = q" by simp
      note f = deliver_native_rejected [OF w, of v]
      have split: "deliverAll (evs @ (v, PlayRejected 0) # post) q =
                     deliverAll post (deliverAll (evs @ [(v, PlayRejected 0)]) q)"
        using deliverAll_append [of "evs @ [(v, PlayRejected 0)]" post q] by simp
      have idle: "deliverAll post (deliver (v, PlayRejected 0) q) = deliver (v, PlayRejected 0) q"
        using f(1,2) by (simp add: deliverAll_idle)
      show "actionsSince (deliverAll evs q) (deliverAll (evs @ [(v, PlayRejected 0)]) q) =
                 [CallGetProxiedUrl u, VideoSetSrc (getProxiedUrl u), VideoPlay]
             \<and> deliverAll (evs @ (v, PlayRejected 0) # post) q =
                 deliverAll (evs @ [(v, PlayRejected 0)]) q"
        unfolding split using f(4) idle same by (simp add: deliverAll_snoc)
    qed
    from h pq dn first show "hls q = None \<and> pending q = [u]
          \<and> sourceUrls (actionsSince q (deliverAll evs q)) =
              (if retried evs then [getProxiedUrl u] else [])
          \<and> proxiedBuilt (actionsSince q (deliverAll evs q)) =
              (if retried evs then [u] else [])
          \<and> (\<not> list_ex settles evs \<longrightarrow>
               actionsSince (deliverAll evs q) (deliverAll (evs @ [(v, PlayRejected 0)]) q) =
                 [CallGetProxiedUrl u, VideoSetSrc (getProxiedUrl u), VideoPlay]
             \<and> deliverAll (evs @ (v, PlayRejected 0) # post) q =
                 deliverAll (evs @ [(v, PlayRejected 0)]) q)"
      by simp
  qed
  have dir: ?D if pe: "pending p = []"
  proof
    assume n: "\<not> (looksLikeHls u \<and> hlsSupported b) \<and> canPlayHls b = NoSupport"
    then have "hls q = None" "pending q = []" using st pe by auto
    then show "deliverAll evs q = q" by (simp add: deliverAll_idle)
  qed
  from st(1) ac t eng nat dir show ?thesis by simp
qed

theorem direct_then_one_relay_witness:
  "\<not> forceProxy (settings (newPlayer exBrowser defaultSettings))
   \<and> \<not> forceTranscode (settings (newPlayer exBrowser defaultSettings))
   \<and> \<not> includesStr ''http://tv.example/a.m3u8'' ''pluto.tv''
   \<and> pending (newPlayer exBrowser defaultSettings) = []
   \<and> looksLikeHls ''http://tv.example/a.m3u8'' \<and> hlsSupported exBrowser
   \<and> \<not> list_ex corsFatal [(exVideo, MANIFEST_PARSED)]
   \<and> corsFatal (exVideo, ERROR exNetworkError)
   \<and> sourceUrls (actionsSince (newPlayer exBrowser defaultSettings)
        (play exBrowser (Channel ''News'') ''http://tv.example/a.m3u8''
           (newPlayer exBrowser defaultSettings))) = [[], ''http://tv.example/a.m3u8'']
   \<and> actionsSince
        (deliverAll [(exVideo, MANIFEST_PARSED)]
           (play exBrowser (Channel ''News'') ''http://tv.example/a.m3u8''
              (newPlayer exBrowser defaultSettings)))
        (deliverAll ([(exVideo, MANIFEST_PARSED)] @ [(exVideo, ERROR exNetworkError)])
           (play exBrowser (Channel ''News'') ''http://tv.example/a.m3u8''
              (newPlayer exBrowser defaultSettings)))
      = [CallGetProxiedUrl ''http://tv.example/a.m3u8'',
         HlsLoadSource 1 (getProxiedUrl ''http://tv.example/a.m3u8''), HlsStartLoad 1]
   \<and> quiet (actionsSince
        (deliverAll ([(exVideo, MANIFEST_PARSED)] @ [(exVideo, ERROR exNetworkError)])
           (play exBrowser (Channel ''News'') ''http://tv.example/a.m3u8''
              (newPlayer exBrowser defaultSettings)))
        (deliverAll ([(exVideo, MANIFEST_PARSED)] @ (exVideo, ERROR exNetworkError) #
                     [(exVideo, ERROR exNetworkError), (exVideo, ERROR exMediaError)])
           (play exBrowser (Channel ''News'') ''http://tv.example/a.m3u8''
              (newPlayer exBrowser defaultSettings))))
   \<and> \<not> looksLikeHls ''http://tv.example/film.mp4'' \<and> canPlayHls exNativeBrowser = Maybe
   \<and> pending (newPlayer exNativeBrowser defaultSettings) = []
   \<and> \<not> list_ex settles [(exVideo, ERROR exNetworkError)]
   \<and> actionsSince
        (deliverAll [(exVideo, ERROR exNetworkError)]
           (play exNativeBrowser (Channel ''Film'') ''http://tv.example/film.mp4''
              (newPlayer exNativeBrowser defaultSettings)))
        (deliverAll ([(exVideo, ERROR exNetworkError)] @ [(exVideo, PlayRejected 0)])
           (play exNativeBrowser (Channel ''Film'') ''http://tv.example/film.mp4''
              (newPlayer exNativeBrowser defaultSettings)))
      = [CallGetProxiedUrl ''http://tv.example/film.mp4'',
         VideoSetSrc (getProxiedUrl ''http://tv.example/film.mp4''), VideoPlay]"
proof -
  have h1: "\<not> forceProxy (settings (newPlayer exBrowser defaultSettings))"
    and h2: "\<not> forceTranscode (settings (newPlayer exBrowser defaultSettings))"
    and h4: "pending (newPlayer exBrowser defaultSettings) = []"
    and n: "nextId (newPlayer exBrowser defaultSettings) = 1"
    by (simp_all add: newPlayer_def newHls_def emit_def ex_defs)
  have h3: "\<not> includesStr ''http://tv.example/a.m3u8'' ''pluto.tv''" by simp
  have h5: "looksLikeHls ''http://tv.example/a.m3u8'' \<and> hlsSupported exBrowser"
    by (simp add: looksLikeHls_def ex_defs)
  have h6: "\<not> list_ex corsFatal [(exVideo, MANIFEST_PARSED)]
            \<and> corsFatal (exVideo, ERROR exNetworkError)"
    by (simp add: ex_defs isCorsLikely_def)
  have g1: "\<not> forceProxy (settings (newPlayer exNativeBrowser defaultSettings))"
    and g2: "\<not> forceTranscode (settings (newPlayer exNativeBrowser defaultSettings))"
    and g4: "pending (newPlayer exNativeBrowser defaultSettings) = []"
    by (simp_all add: newPlayer_def newHls_def emit_def ex_defs)
  have g3: "\<not> includesStr ''http://tv.example/film.mp4'' ''pluto.tv''" by simp
  have g5: "\<not> looksLikeHls ''http://tv.example/film.mp4'' \<and> canPlayHls exNativeBrowser = Maybe"
    by (simp add: looksLikeHls_def ex_defs)
  have g6: "\<not> list_ex settles [(exVideo, ERROR exNetworkError)]" by simp
  from direct_then_one_relay [OF h1 h2 h3, of exBrowser "Channel ''News''"
      "[(exVideo, MANIFEST_PARSED)]" "(exVideo, ERROR exNetworkError)"
      "[(exVideo, ERROR exNetworkError), (exVideo, ERROR exMediaError)]" exVideo]
    h1 h2 h3 h4 h5 h6 n
  have engine: "sourceUrls (actionsSince (newPlayer exBrowser defaultSettings)
        (play exBrowser (Channel ''News'') ''http://tv.example/a.m3u8''
           (newPlayer exBrowser defaultSettings))) = [[], ''http://tv.example/a.m3u8'']
   \<and> actionsSince
        (deliverAll [(exVideo, MANIFEST_PARSED)]
           (play exBrowser (Channel ''News'') ''http://tv.example/a.m3u8''
              (newPlayer exBrowser defaultSettings)))
        (deliverAll ([(exVideo, MANIFEST_PARSED)] @ [(exVideo, ERROR exNetworkError)])
           (play exBrowser (Channel ''News'') ''http://tv.example/a.m3u8''
              (newPlayer exBrowser defaultSettings)))
      = [CallGetProxiedUrl ''http://tv.example/a.m3u8'',
         HlsLoadSource 1 (getProxiedUrl ''http://tv.example/a.m3u8''), HlsStartLoad 1]
   \<and> quiet (actionsSince
        (deliverAll ([(exVideo, MANIFEST_PARSED)] @ [(exVideo, ERROR exNetworkError)])
           (play exBrowser (Channel ''News'') ''http://tv.example/a.m3u8''
              (newPlayer exBrowser defaultSettings)))
        (deliverAll ([(exVideo, MANIFEST_PARSED)] @ (exVideo, ERROR exNetworkError) #
                     [(exVideo, ERROR exNetworkError), (exVideo, ERROR exMediaError)])
           (play exBrowser (Channel ''News'') ''http://tv.example/a.m3u8''
              (newPlayer exBrowser defaultSettings))))"
    by simp
  from direct_then_one_relay [OF g1 g2 g3, of exNativeBrowser "Channel ''Film''"
      "[(exVideo, ERROR exNetworkError)]" "(exVideo, ERROR exNetworkError)" "[]" exVideo]
    g4 g5 g6
  have native: "actionsSince
        (deliverAll [(exVideo, ERROR exNetworkError)]
           (play exNativeBrowser (Channel ''Film'') ''http://tv.example/film.mp4''
              (newPlayer exNativeBrowser defaultSettings)))
        (deliverAll ([(exVideo, ERROR exNetworkError)] @ [(exVideo, PlayRejected 0)])
           (play exNativeBrowser (Channel ''Film'') ''http://tv.example/film.mp4''
              (newPlayer exNativeBrowser defaultSettings)))
      = [CallGetProxiedUrl ''http://tv.example/film.mp4'',
         VideoSetSrc (getProxiedUrl ''http://tv.example/film.mp4''), VideoPlay]"
    by simp
  from engine native h1 h2 h3 h4 h5 h6 g4 g5 g6 show ?thesis by simp
qed

text \<open>
  Claim C2 as stated fails in two ways. A stream that does not look like HLS, in a
  browser without native HLS, is played by the video element alone: the origin URL is
  loaded, and a fatal network error leaves the player as it is, with no escalation. And a
  retry handler left pending by an earlier native-path request runs when its promise is
  rejected during a later engine session: it loads the relayed URL of the earlier stream
  and sets the proxy flag, so the fatal network error of the engine that follows causes
  no escalation of its own.
\<close>

theorem escalation_missing_or_stale:
  "sourceUrls (actionsSince (newPlayer exBrowser defaultSettings)
      (play exBrowser (Channel ''Film'') ''http://tv.example/film.mp4''
         (newPlayer exBrowser defaultSettings))) = [[], ''http://tv.example/film.mp4'']
   \<and> deliverAll [(exVideo, ERROR exNetworkError)]
        (play exBrowser (Channel ''Film'') ''http://tv.example/film.mp4''
           (newPlayer exBrowser defaultSettings))
     = play exBrowser (Channel ''Film'') ''http://tv.example/film.mp4''
         (newPlayer exBrowser defaultSettings)
   \<and> actionsSince
        (play exNativeBrowser (Channel ''News'') ''http://tv.example/a.m3u8''
           (play exNativeBrowser (Channel ''Film'') ''http://tv.example/film.mp4''
              (newPlayer exNativeBrowser defaultSettings)))
        (deliverAll [(exVideo, PlayRejected 0), (exVideo, ERROR exNetworkError)]
           (play exNativeBrowser (Channel ''News'') ''http://tv.example/a.m3u8''
              (play exNativeBrowser (Channel ''Film'') ''http://tv.example/film.mp4''
                 (newPlayer exNativeBrowser defaultSettings))))
     = [CallGetProxiedUrl ''http://tv.example/film.mp4'',
        VideoSetSrc (getProxiedUrl ''http://tv.example/film.mp4''), VideoPlay]"
  by (simp add: eval_defs ex_defs proj_Cons)

text \<open>
  Claim C3. With the default settings and a URL that contains \<open>pluto.tv\<close>, \<open>play\<close> sets
  the proxy flag, builds the relayed URL and loads it (it differs from the origin URL);
  during the session the flag stays set and no other source is loaded: the origin URL
  is never given to the engine or to the video element.
\<close>

theorem pluto_relayed_from_start:
  fixes p :: player and b :: browser and ch :: channel and u :: url
    and evs :: "(video \<times> event) list"
  defines "q \<equiv> play b ch u p"
  assumes "settings p = defaultSettings" and "includesStr u ''pluto.tv''"
  shows "isUsingProxy q
       \<and> proxiedBuilt (actionsSince p q) = [u]
       \<and> sourceUrls (actionsSince p q) = [[], getProxiedUrl u]
       \<and> getProxiedUrl u \<noteq> u
       \<and> transcodeBuilt (actionsSince p q) = []
       \<and> isUsingProxy (deliverAll evs q)
       \<and> sourceUrls (actionsSince q (deliverAll evs q)) = []
       \<and> transcodeBuilt (actionsSince q (deliverAll evs q)) = []"
proof -
  have a: "\<not> forceTranscode (settings p)"
    and b: "forceProxy (settings p) \<or> includesStr u ''pluto.tv''"
    using assms(2,3) by (simp_all add: defaultSettings_def)
  note ac = play_proxied_actions [OF a b, of b ch, folded q_def]
  have r: "relayed q" using play_proxied_state [OF a b, of b ch] by (simp add: q_def)
  from deliverAll_relayed [OF r, of evs] r ac show ?thesis
    by (simp add: relayed_def quiet_def proxied_neq)
qed

theorem pluto_relayed_from_start_witness:
  "settings (newPlayer exBrowser defaultSettings) = defaultSettings
   \<and> includesStr ''https://pluto.tv/live/x.m3u8'' ''pluto.tv''
   \<and> sourceUrls (actionsSince (newPlayer exBrowser defaultSettings)
        (play exBrowser (Channel ''Pluto'') ''https://pluto.tv/live/x.m3u8''
           (newPlayer exBrowser defaultSettings))) =
       [[], ''/api/proxy/stream?url=https%3A%2F%2Fpluto.tv%2Flive%2Fx.m3u8'']
   \<and> sourceUrls (actionsSince
        (play exBrowser (Channel ''Pluto'') ''https://pluto.tv/live/x.m3u8''
           (newPlayer exBrowser defaultSettings))
        (deliverAll [(exVideo, MANIFEST_PARSED), (exVideo, ERROR exNetworkError)]
           (play exBrowser (Channel ''Pluto'') ''https://pluto.tv/live/x.m3u8''
              (newPlayer exBrowser defaultSettings)))) = []"
proof -
  have h1: "settings (newPlayer exBrowser defaultSettings) = defaultSettings"
    by (simp add: newPlayer_def newHls_def emit_def ex_defs)
  have h2: "includesStr ''https://pluto.tv/live/x.m3u8'' ''pluto.tv''" by simp
  have e: "getProxiedUrl ''https://pluto.tv/live/x.m3u8'' =
             ''/api/proxy/stream?url=https%3A%2F%2Fpluto.tv%2Flive%2Fx.m3u8''"
    by (simp add: getProxiedUrl_def uriUnescaped_def percentEncode_def hexDigit_def)
  from pluto_relayed_from_start [OF h1 h2, of exBrowser "Channel ''Pluto''"
      "[(exVideo, MANIFEST_PARSED), (exVideo, ERROR exNetworkError)]"] h1 h2 e
  show ?thesis by simp
qed

text \<open>
  Claim C4. On an engine attached by \<open>play\<close>, fragment-change events with the continuity
  counters 0, 0, 1, 1, 2, none for the init segment, each while the video plays at a
  non-zero position, cause exactly two seeks of one second, at the third and at the fifth
  event (the changes from 0 to 1 and from 1 to 2); the first event causes none.
\<close>

theorem discontinuity_seeks:
  assumes "hls (play b ch u p) \<noteq> None"
    and "playing v1" and "playing v2" and "playing v3" and "playing v4" and "playing v5"
  shows "actionsPerEvent
           [fragChanged v1 n1 0, fragChanged v2 n2 0, fragChanged v3 n3 1,
            fragChanged v4 n4 1, fragChanged v5 n5 2]
           (play b ch u p)
         = [[], [], [VideoSeekBy 1], [], [VideoSeekBy 1]]"
proof -
  let ?q = "play b ch u p"
  from play_engine_state [OF assms(1)]
  have h: "hls ?q = Some (nextId p, PlayHandlers)" and l: "lastDiscontinuity ?q = - 1"
    by simp_all
  have upt5: "[0..<5] = [0, 1, 2, 3, 4::nat]" by (simp add: upt_rec)
  have s1: "deliver (fragChanged v1 n1 0) ?q = ?q\<lparr>lastDiscontinuity := 0\<rparr>"
    using h l assms(2) by (simp add: frag_step)
  have s2: "deliver (fragChanged v2 n2 0) (?q\<lparr>lastDiscontinuity := 0\<rparr>) =
              ?q\<lparr>lastDiscontinuity := 0\<rparr>"
    using h assms(3) by (simp add: frag_step)
  have s3: "deliver (fragChanged v3 n3 1) (?q\<lparr>lastDiscontinuity := 0\<rparr>) =
              emit (VideoSeekBy 1) (?q\<lparr>lastDiscontinuity := 1\<rparr>)"
    using h assms(4) by (simp add: frag_step)
  have s4: "deliver (fragChanged v4 n4 1) (emit (VideoSeekBy 1) (?q\<lparr>lastDiscontinuity := 1\<rparr>)) =
              emit (VideoSeekBy 1) (?q\<lparr>lastDiscontinuity := 1\<rparr>)"
    using h assms(5) by (simp add: frag_step emit_def)
  have s5: "deliver (fragChanged v5 n5 2) (emit (VideoSeekBy 1) (?q\<lparr>lastDiscontinuity := 1\<rparr>)) =
              emit (VideoSeekBy 1) (emit (VideoSeekBy 1) (?q\<lparr>lastDiscontinuity := 2\<rparr>))"
    using h assms(6) by (simp add: frag_step emit_def)
  show ?thesis
    by (simp add: actionsPerEvent_def upt5 deliverAll_def s1 s2 s3 s4 s5)
      (simp add: actionsSince_def emit_def)
qed

theorem discontinuity_seeks_witness:
  "hls (play exBrowser (Channel ''News'') ''http://tv.example/a.m3u8''
          (newPlayer exBrowser defaultSettings)) \<noteq> None
   \<and> playing exVideo
   \<and> actionsPerEvent
       [fragChanged exVideo 10 0, fragChanged exVideo 11 0, fragChanged exVideo 12 1,
        fragChanged exVideo 13 1, fragChanged exVideo 14 2]
       (play exBrowser (Channel ''News'') ''http://tv.example/a.m3u8''
          (newPlayer exBrowser defaultSettings))
     = [[], [], [VideoSeekBy 1], [], [VideoSeekBy 1]]"
proof -
  have h: "hls (play exBrowser (Channel ''News'') ''http://tv.example/a.m3u8''
          (newPlayer exBrowser defaultSettings)) \<noteq> None"
    by (simp add: newPlayer_def play_defs stop_def looksLikeHls_def ex_defs)
  have v: "playing exVideo" by (simp add: playing_def exVideo_def)
  from discontinuity_seeks [OF h v v v v v, of 10 11 12 13 14] h v show ?thesis by simp
qed

text \<open>
  Claim C5, as amended. On an engine made by \<open>play\<close>, a fatal media error that is not
  classified as CORS-related (not a fragment-parsing failure while unrelayed) makes the
  listener call \<open>recoverMediaError\<close> and nothing else; and no event, whatever follows,
  makes the player build a transcode URL or create an engine: the transcode path is
  entered only by \<open>play\<close> with \<open>forceTranscode\<close> set.
\<close>

theorem media_error_recovers_only:
  assumes "hls q = Some (h, PlayHandlers)" and "fatal d" and "etype d = MEDIA_ERROR"
    and "\<not> (isCorsLikely d \<and> \<not> isUsingProxy q)"
  shows "deliver (v, ERROR d) q = emit (HlsRecoverMediaError h) q
       \<and> actionsSince q (deliver (v, ERROR d) q) = [HlsRecoverMediaError h]
       \<and> transcodeBuilt (actionsSince q (deliverAll evs q)) = []
       \<and> engineCreations (actionsSince q (deliverAll evs q)) = []"
proof -
  have a: "deliver (v, ERROR d) q = emit (HlsRecoverMediaError h) q"
    using assms by (auto simp: deliver_def onError_def)
  then have "actionsSince q (deliver (v, ERROR d) q) = [HlsRecoverMediaError h]"
    by (simp add: actionsSince_emit)
  with a deliverAll_no_transcode [of q evs] show ?thesis by simp
qed

theorem media_error_recovers_only_witness:
  "hls (play exBrowser (Channel ''News'') ''http://tv.example/a.m3u8''
          (newPlayer exBrowser defaultSettings)) = Some (1, PlayHandlers)
   \<and> fatal exMediaError \<and> etype exMediaError = MEDIA_ERROR
   \<and> \<not> isCorsLikely exMediaError
   \<and> actionsSince
       (play exBrowser (Channel ''News'') ''http://tv.example/a.m3u8''
          (newPlayer exBrowser defaultSettings))
       (deliver (exVideo, ERROR exMediaError)
          (play exBrowser (Channel ''News'') ''http://tv.example/a.m3u8''
             (newPlayer exBrowser defaultSettings))) = [HlsRecoverMediaError 1]
   \<and> transcodeBuilt (actionsSince
       (play exBrowser (Channel ''News'') ''http://tv.example/a.m3u8''
          (newPlayer exBrowser defaultSettings))
       (deliverAll [(exVideo, ERROR exMediaError), (exVideo, ERROR exNetworkError)]
          (play exBrowser (Channel ''News'') ''http://tv.example/a.m3u8''
             (newPlayer exBrowser defaultSettings)))) = []"
proof -
  have h: "hls (play exBrowser (Channel ''News'') ''http://tv.example/a.m3u8''
          (newPlayer exBrowser defaultSettings)) = Some (1, PlayHandlers)"
    by (simp add: newPlayer_def play_defs stop_def looksLikeHls_def ex_defs)
  have f: "fatal exMediaError" and t: "etype exMediaError = MEDIA_ERROR"
    and c: "\<not> isCorsLikely exMediaError"
    by (simp_all add: exMediaError_def isCorsLikely_def)
  from c have c': "\<not> (isCorsLikely exMediaError \<and>
      \<not> isUsingProxy (play exBrowser (Channel ''News'') ''http://tv.example/a.m3u8''
          (newPlayer exBrowser defaultSettings)))" by simp
  from media_error_recovers_only [OF h f t c', of exVideo
      "[(exVideo, ERROR exMediaError), (exVideo, ERROR exNetworkError)]"] h f t c
  show ?thesis by (simp add: actionsSince_emit)
qed

text \<open>
  Claim C5 as stated fails: a fatal media error that recovery does not resolve, so that
  it occurs again, is answered by \<open>recoverMediaError\<close> each time; no transcode URL is
  built and the source of the video element is not set.
\<close>

theorem media_error_never_transcodes:
  "actionsSince
     (play exBrowser (Channel ''News'') ''http://tv.example/a.m3u8''
        (newPlayer exBrowser defaultSettings))
     (deliverAll [(exVideo, ERROR exMediaError), (exVideo, ERROR exMediaError)]
        (play exBrowser (Channel ''News'') ''http://tv.example/a.m3u8''
           (newPlayer exBrowser defaultSettings)))
   = [HlsRecoverMediaError 1, HlsRecoverMediaError 1]
   \<and> transcodeBuilt (actionsSince
       (play exBrowser (Channel ''News'') ''http://tv.example/a.m3u8''
          (newPlayer exBrowser defaultSettings))
       (deliverAll [(exVideo, ERROR exMediaError), (exVideo, ERROR exMediaError)]
          (play exBrowser (Channel ''News'') ''http://tv.example/a.m3u8''
             (newPlayer exBrowser defaultSettings)))) = []
   \<and> videoSrc (deliverAll [(exVideo, ERROR exMediaError), (exVideo, ERROR exMediaError)]
        (play exBrowser (Channel ''News'') ''http://tv.example/a.m3u8''
           (newPlayer exBrowser defaultSettings))) = []"
  by (simp add: eval_defs ex_defs proj_Cons)

text \<open>
  Claim C6. Whatever the page does with a player (play, stop, settings, events), at no
  point of its history do two engine instances exist or are two attached, and the only
  instance that exists is the one the player holds. A call of \<open>play\<close> begins with the calls
  of \<open>stop\<close>: it destroys the instance held, if any, sets \<open>this.hls\<close> to null and clears the
  source of the video element; after these calls no instance exists, and only then does
  the rest of \<open>play\<close> run.
\<close>

theorem single_engine_attachment:
  fixes b :: browser and s :: settings and cs :: "command list" and ch :: channel and u :: url
  defines "q \<equiv> runCommands b cs (newPlayer b s)"
  shows "singleEngine (trace q)
       \<and> fst (enginesAfter (trace q)) = liveOf q
       \<and> length (fst (enginesAfter (trace q))) \<le> 1
       \<and> length (snd (enginesAfter (trace q))) \<le> 1
       \<and> stopActions q =
           (case hls q of Some (h, k) \<Rightarrow> [HlsDestroy h] | None \<Rightarrow> []) @
           [VideoPause, VideoSetSrc [], VideoLoad]
       \<and> hls (stop q) = None \<and> videoSrc (stop q) = []
       \<and> enginesAfter (trace q @ stopActions q) = ([], [])
       \<and> (\<exists>rest. actionsSince q (play b ch u q) = stopActions q @ rest)
       \<and> singleEngine (trace (play b ch u q))"
proof -
  have i: "engineInv q" unfolding q_def by (rule engineInv_run [OF engineInv_newPlayer])
  from i liveOf_length [of q] have a: "singleEngine (trace q)"
    "fst (enginesAfter (trace q)) = liveOf q"
    "length (fst (enginesAfter (trace q))) \<le> 1"
    "length (snd (enginesAfter (trace q))) \<le> 1"
    by (simp_all add: engineInv_def)
  from engineInv_play [OF i, of b ch u] have p: "singleEngine (trace (play b ch u q))"
    by (simp add: engineInv_def)
  from a p stopActions_engines(1) [OF i] play_starts_with_stop [of q b ch u]
  show ?thesis by (simp add: stopActions_def stop_fields)
qed

text \<open>
  Claim C7. A request without the \<open>url\<close> parameter is answered with status 400 and the
  error JSON, whatever \<open>spawn\<close> would do: \<open>spawn\<close> is not called, nothing else is sent, no
  process exists, and no later event of the request has any effect.
\<close>

theorem transcode_missing_url:
  assumes "queryUrl req = None"
  shows "effects (getTranscode sp req) =
           [Status 400, Json [(''error'', ''URL parameter is required'')]]
       \<and> spawns (effects (getTranscode sp req)) = []
       \<and> \<not> process (getTranscode sp req)
       \<and> connRun es (getTranscode sp req) = getTranscode sp req"
proof -
  have a: "\<not> process (getTranscode sp req)"
    using assms by (simp add: getTranscode_def badRequest_def)
  show ?thesis
    using assms connRun_dead [OF a] by (simp add: getTranscode_def badRequest_def spawns_def)
qed

theorem transcode_missing_url_witness:
  "queryUrl \<lparr>queryUrl = None, ffmpegPathLocal = None\<rparr> = None
   \<and> effects (connRun [StderrData ''x'', ReqClose]
        (getTranscode Spawned \<lparr>queryUrl = None, ffmpegPathLocal = None\<rparr>)) =
       [Status 400, Json [(''error'', ''URL parameter is required'')]]"
  using transcode_missing_url
    [of "\<lparr>queryUrl = None, ffmpegPathLocal = None\<rparr>" Spawned "[StderrData ''x'', ReqClose]"]
  by simp

text \<open>
  Claim C8. After a successful spawn, every close of the client connection calls
  \<open>kill('SIGKILL')\<close> on the process and does nothing else, whatever happened to the
  process before (output on standard error, exit, error): the kill signals sent during a
  request are exactly one per close event.
\<close>

theorem close_kills_process:
  assumes "queryUrl req = Some u" and "u \<noteq> []"
  shows "process (getTranscode Spawned req)
       \<and> kills (effects (getTranscode Spawned req)) = []
       \<and> effectsSince (connRun es (getTranscode Spawned req))
            (connRun (es @ [ReqClose]) (getTranscode Spawned req)) = [Kill ''SIGKILL'']
       \<and> kills (effects (connRun es (getTranscode Spawned req))) =
            replicate (count_list es ReqClose) ''SIGKILL''"
proof -
  let ?c = "getTranscode Spawned req"
  have p: "process ?c" using assms by (simp add: getTranscode_def)
  have k: "kills (effects ?c) = []" using assms by (simp add: getTranscode_def kills_def)
  have pr: "process (connRun es ?c)" using p by (simp add: connRun_process)
  have s: "effectsSince (connRun es ?c) (connRun (es @ [ReqClose]) ?c) = [Kill ''SIGKILL'']"
    using pr by (simp add: connRun_snoc connStep_def effectsSince_def)
  from p k s connRun_kills [OF p, of es] show ?thesis by simp
qed

theorem close_kills_process_witness:
  "queryUrl \<lparr>queryUrl = Some ''http://tv.example/a.ts'', ffmpegPathLocal = None\<rparr> =
     Some ''http://tv.example/a.ts''
   \<and> ''http://tv.example/a.ts'' \<noteq> []
   \<and> kills (effects (connRun [StderrData ''w'', ProcExit (Some 1), ReqClose]
        (getTranscode Spawned
           \<lparr>queryUrl = Some ''http://tv.example/a.ts'', ffmpegPathLocal = None\<rparr>))) =
       [''SIGKILL'']"
  using close_kills_process
    [of "\<lparr>queryUrl = Some ''http://tv.example/a.ts'', ffmpegPathLocal = None\<rparr>"
        "''http://tv.example/a.ts''" "[StderrData ''w'', ProcExit (Some 1), ReqClose]"]
  by simp

text \<open>
  Claim C9, as amended. For a request whose \<open>url\<close> parameter is a non-empty string,
  \<open>spawn\<close> is the first call of the handler and its only call of \<open>spawn\<close>, on the
  configured binary (\<open>ffmpeg\<close> by default) with the fixed arguments: the upstream URL after
  \<open>-i\<close>; \<open>-c:v copy\<close>; \<open>-c:a aac\<close>, \<open>-ar 48000\<close>, \<open>-b:a 256k\<close>,
  \<open>-af aresample=48000:async=1\<close>; \<open>-f mp4\<close> with
  \<open>-movflags frag_keyframe+empty_moov+default_base_moof\<close>; and \<open>-\<close> for standard output.
\<close>

theorem spawn_argument_contract:
  assumes "queryUrl req = Some u" and "u \<noteq> []"
  shows "spawns (effects (getTranscode sp req)) =
           [(orElse (ffmpegPathLocal req) ''ffmpeg'',
             [''-hide_banner'', ''-loglevel'', ''warning'', ''-fflags'', ''+genpts'',
              ''-i'', u] @
             [''-c:v'', ''copy'', ''-c:a'', ''aac'', ''-ar'', ''48000'', ''-b:a'', ''256k'',
              ''-af'', ''aresample=48000:async=1'', ''-f'', ''mp4'',
              ''-movflags'', ''frag_keyframe+empty_moov+default_base_moof'', ''-''])]
       \<and> hd (effects (getTranscode sp req)) =
           CallSpawn (orElse (ffmpegPathLocal req) ''ffmpeg'') (transcodeArgs u)"
  using assms
  by (cases sp) (simp_all add: getTranscode_def spawns_def transcodeArgs_def)

theorem spawn_argument_contract_witness:
  "queryUrl \<lparr>queryUrl = Some ''http://tv.example/a.ts'', ffmpegPathLocal = None\<rparr> =
     Some ''http://tv.example/a.ts''
   \<and> ''http://tv.example/a.ts'' \<noteq> []
   \<and> spawns (effects (getTranscode Spawned
        \<lparr>queryUrl = Some ''http://tv.example/a.ts'', ffmpegPathLocal = None\<rparr>)) =
       [(''ffmpeg'',
         [''-hide_banner'', ''-loglevel'', ''warning'', ''-fflags'', ''+genpts'',
          ''-i'', ''http://tv.example/a.ts'',
          ''-c:v'', ''copy'', ''-c:a'', ''aac'', ''-ar'', ''48000'', ''-b:a'', ''256k'',
          ''-af'', ''aresample=48000:async=1'', ''-f'', ''mp4'',
          ''-movflags'', ''frag_keyframe+empty_moov+default_base_moof'', ''-''])]"
  using spawn_argument_contract
    [of "\<lparr>queryUrl = Some ''http://tv.example/a.ts'', ffmpegPathLocal = None\<rparr>"
        "''http://tv.example/a.ts''" Spawned]
  by (simp add: orElse_def)

text \<open>
  Claim C9 as stated fails for a request whose \<open>url\<close> parameter is present and empty
  (\<open>GET /api/transcode?url=\<close>): the guard \<open>!url\<close> answers it with status 400 and \<open>spawn\<close>
  is not called.
\<close>

theorem empty_url_not_spawned:
  "spawns (effects (getTranscode Spawned \<lparr>queryUrl = Some [], ffmpegPathLocal = None\<rparr>)) = []
   \<and> effects (getTranscode Spawned \<lparr>queryUrl = Some [], ffmpegPathLocal = None\<rparr>) =
       [Status 400, Json [(''error'', ''URL parameter is required'')]]"
  by (simp add: getTranscode_def badRequest_def spawns_def)

text \<open>
  Claim C10. The relayed URL and the transcode URL are the route followed by the
  URI-component encoding of the upstream URL; decoding that encoding gives the upstream
  URL back, and so does reading the \<open>url\<close> parameter of either constructed URL: the
  encoding contains none of \<open>? # & = +\<close>, so the parameter is not cut short.
\<close>

theorem url_parameter_round_trip:
  "getProxiedUrl u = ''/api/proxy/stream?url='' @ encodeURIComponent u
   \<and> getTranscodeUrl u = ''/api/transcode?url='' @ encodeURIComponent u
   \<and> decodeURIComponent (encodeURIComponent u) = Some u
   \<and> queryParam ''url'' (getProxiedUrl u) = Some u
   \<and> queryParam ''url'' (getTranscodeUrl u) = Some u"
  by (intro conjI getProxiedUrl_def getTranscodeUrl_def decode_encode queryParam_proxied
      queryParam_transcode)

end
